theory Spec2Isabelle
  imports Main "HOL-Library.Word"
begin

section \<open>The MODA container: data and the library it is built on\<close>

text \<open>
  The three programs (\<^verbatim>\<open>moda_compiler.py\<close>, \<^verbatim>\<open>moda_decompiler.py\<close>, \<^verbatim>\<open>moda_player.py\<close>) are
  Python. A \<^verbatim>\<open>bytes\<close> value is a list of 8-bit words; a \<^verbatim>\<open>str\<close> is the list of its code
  points, so that no character of a file name is excluded. \<open>lit\<close> turns a literal of the
  source into such a list.
\<close>

type_synonym byte = "8 word"
type_synonym bytes = "byte list"
type_synonym str = "nat list"

definition lit :: "string \<Rightarrow> str" where
  "lit s = map of_char s"

text \<open>
  The values \<^verbatim>\<open>json.loads\<close> returns and \<^verbatim>\<open>json.dumps\<close> accepts: \<^verbatim>\<open>None\<close>, booleans,
  integers, strings, lists and dictionaries with string keys (a dictionary is the list of
  its items in insertion order). Numbers with a fraction or an exponent are not
  represented; the programs never build one.
\<close>

datatype json =
    JNull
  | JBool bool
  | JInt int
  | JStr str
  | JList "json list"
  | JDict "(str \<times> json) list"

text \<open>
  Exceptions. \<open>NotValidModa\<close> is \<^verbatim>\<open>ValueError("Not a valid MODA file")\<close>, \<open>StructError\<close> is
  \<^verbatim>\<open>struct.error\<close>, \<open>OSError\<close> stands for every failure of \<^verbatim>\<open>open\<close>. Both readers catch
  every exception \<open>e\<close> and raise a \<^verbatim>\<open>ValueError\<close> whose message ends in \<^verbatim>\<open>str(e)\<close>:
  \<open>ErrorExtracting e\<close> in the decompiler, \<open>ErrorLoading e\<close> in the player. In the words of
  the specification, \<open>BadMagic\<close> is the wrapped \<open>NotValidModa\<close>, \<open>TruncatedInput\<close> the wrapped
  \<open>StructError\<close>, \<open>MalformedMetadata\<close> the wrapped \<open>UnicodeDecodeError\<close> or
  \<open>JSONDecodeError\<close>.
\<close>

datatype exn =
    NotValidModa
  | StructError
  | UnicodeEncodeError
  | UnicodeDecodeError
  | JSONDecodeError
  | OSError
  | TypeError
  | KeyError
  | AttributeError
  | RecursionError
  | ErrorExtracting exn
  | ErrorLoading exn

text \<open>A file written by a program: its path and what was written (binary or text mode).\<close>

datatype content = Binary bytes | Text str

type_synonym file_write = "str \<times> content"

text \<open>A loaded \<^verbatim>\<open>mixer.Sound\<close>, named by the path it was loaded from.\<close>

datatype sound = Sound str

text \<open>
  What the programs take from outside the repository, as parameters of the model:
  \<^item> \<open>utf8_encode\<close>, \<open>utf8_decode\<close>: \<^verbatim>\<open>str.encode('utf-8')\<close> and \<^verbatim>\<open>bytes.decode('utf-8')\<close>;
  \<^item> \<open>json_dumps\<close>: \<^verbatim>\<open>json.dumps(_, indent=2)\<close>; \<open>json_loads\<close>: \<^verbatim>\<open>json.loads\<close>;
  \<^item> \<open>fs_read\<close>: the content of the files that can be opened for reading;
  \<^item> \<open>can_write\<close>: whether \<^verbatim>\<open>open(path, 'wb')\<close> (or \<^verbatim>\<open>'w'\<close>) succeeds;
  \<^item> \<open>gettempdir\<close>, \<open>mkdtemp\<close>: \<^verbatim>\<open>tempfile.gettempdir()\<close> and
    \<^verbatim>\<open>tempfile.mkdtemp(prefix=...)\<close>, \<open>None\<close> when the directory cannot be made;
  \<^item> \<open>sound_loads\<close>: whether \<^verbatim>\<open>mixer.Sound(path)\<close> returns a sound (it raises otherwise);
  \<^item> \<open>stack_room\<close>: the room the recursion limit of the interpreter
    (\<^verbatim>\<open>sys.getrecursionlimit()\<close>, 1000 by default) leaves when \<^verbatim>\<open>play\<close> or \<^verbatim>\<open>check_events\<close>
    calls \<^verbatim>\<open>play_sequential\<close>: the number of nested calls of \<^verbatim>\<open>play_sequential\<close>, that
    call included, in which the Python functions it calls can still be entered.
\<close>

record pyenv =
  utf8_encode :: "str \<Rightarrow> exn + bytes"
  utf8_decode :: "bytes \<Rightarrow> exn + str"
  json_dumps :: "json \<Rightarrow> str"
  json_loads :: "str \<Rightarrow> exn + json"
  fs_read :: "str \<Rightarrow> bytes option"
  can_write :: "str \<Rightarrow> bool"
  gettempdir :: str
  mkdtemp :: "str \<Rightarrow> str option"
  sound_loads :: "str \<Rightarrow> bool"
  stack_room :: nat

subsection \<open>\<^verbatim>\<open>os.path\<close> (POSIX) and \<^verbatim>\<open>open\<close>\<close>

definition sep :: nat where
  "sep = 47"

text \<open>\<^verbatim>\<open>posixpath.basename\<close>: what follows the last separator.\<close>

definition basename :: "str \<Rightarrow> str" where
  "basename p = rev (takeWhile (\<lambda>c. c \<noteq> sep) (rev p))"

text \<open>\<^verbatim>\<open>posixpath.join(a, b)\<close>: an absolute \<open>b\<close> replaces \<open>a\<close>.\<close>

definition path_join :: "str \<Rightarrow> str \<Rightarrow> str" where
  "path_join a b =
     (if b \<noteq> [] \<and> hd b = sep then b
      else if a = [] \<or> last a = sep then a @ b
      else a @ [sep] @ b)"

text \<open>
  \<^verbatim>\<open>with open(path, 'rb') as f: f.read()\<close>. The empty path and a path that ends in the
  separator name no regular file: \<^verbatim>\<open>open\<close> raises for them whatever the disk holds.
\<close>

definition open_read :: "pyenv \<Rightarrow> str \<Rightarrow> exn + bytes" where
  "open_read E p =
     (if p = [] \<or> last p = sep then Inl OSError
      else case fs_read E p of None \<Rightarrow> Inl OSError | Some d \<Rightarrow> Inr d)"

subsection \<open>\<^verbatim>\<open>struct.pack\<close> and \<^verbatim>\<open>struct.unpack\<close>, big-endian\<close>

text \<open>\<^verbatim>\<open>struct.pack(">H", n)\<close> and \<^verbatim>\<open>struct.pack(">I", n)\<close> raise when \<open>n\<close> does not fit.\<close>

definition pack_H :: "nat \<Rightarrow> exn + bytes" where
  "pack_H n =
     (if n < 2 ^ 16 then Inr [word_of_nat (n div 2 ^ 8), word_of_nat n]
      else Inl StructError)"

definition pack_I :: "nat \<Rightarrow> exn + bytes" where
  "pack_I n =
     (if n < 2 ^ 32
      then Inr [word_of_nat (n div 2 ^ 24), word_of_nat (n div 2 ^ 16),
                word_of_nat (n div 2 ^ 8), word_of_nat n]
      else Inl StructError)"

text \<open>
  \<^verbatim>\<open>struct.unpack(">H", b)[0]\<close> and \<^verbatim>\<open>struct.unpack(">I", b)[0]\<close> raise unless \<open>b\<close> has
  exactly 2, respectively 4, bytes.
\<close>

definition unpack_H :: "bytes \<Rightarrow> exn + nat" where
  "unpack_H b =
     (case b of
        [b1, b0] \<Rightarrow> Inr (unat b1 * 2 ^ 8 + unat b0)
      | _ \<Rightarrow> Inl StructError)"

definition unpack_I :: "bytes \<Rightarrow> exn + nat" where
  "unpack_I b =
     (case b of
        [b3, b2, b1, b0] \<Rightarrow>
          Inr (unat b3 * 2 ^ 24 + unat b2 * 2 ^ 16 + unat b1 * 2 ^ 8 + unat b0)
      | _ \<Rightarrow> Inl StructError)"

text \<open>\<^verbatim>\<open>f.read(n)\<close> on the bytes not yet read: at most \<open>n\<close> bytes, and what is left.\<close>

definition f_read :: "nat \<Rightarrow> bytes \<Rightarrow> bytes \<times> bytes" where
  "f_read n f = (take n f, drop n f)"

definition MODA_MAGIC :: bytes where
  "MODA_MAGIC = [0x4D, 0x4F, 0x44, 0x41]"

subsection \<open>Exceptions and file writes in sequence\<close>

text \<open>
  \<open>bind_exn m f\<close> runs \<open>f\<close> on the value of \<open>m\<close>, unless \<open>m\<close> raised. \<open>bind_io\<close> is the
  same for a step that also writes files: the files written so far are kept, also when a
  later step raises. \<open>io\<close> is a step that writes nothing, \<open>open_write\<close> is
  \<^verbatim>\<open>with open(path, 'wb') as f: f.write(data)\<close>.
\<close>

definition bind_exn :: "exn + 'a \<Rightarrow> ('a \<Rightarrow> exn + 'b) \<Rightarrow> exn + 'b" where
  "bind_exn m f = (case m of Inl e \<Rightarrow> Inl e | Inr x \<Rightarrow> f x)"

definition bind_io ::
  "file_write list \<times> (exn + 'a) \<Rightarrow> ('a \<Rightarrow> file_write list \<times> (exn + 'b)) \<Rightarrow>
   file_write list \<times> (exn + 'b)" where
  "bind_io m f =
     (case snd m of
        Inl e \<Rightarrow> (fst m, Inl e)
      | Inr x \<Rightarrow> (fst m @ fst (f x), snd (f x)))"

definition io :: "exn + 'a \<Rightarrow> file_write list \<times> (exn + 'a)" where
  "io r = ([], r)"

definition open_write :: "pyenv \<Rightarrow> str \<Rightarrow> content \<Rightarrow> file_write list \<times> (exn + unit)" where
  "open_write E path data =
     (if can_write E path then ([(path, data)], Inr ()) else ([], Inl OSError))"

section \<open>The compiler: \<^verbatim>\<open>ModaCompiler.build_moda_file\<close>\<close>

text \<open>One entry of \<^verbatim>\<open>meta["tracks"]\<close>, for the pair \<open>(i, t)\<close> of \<^verbatim>\<open>enumerate(tracks)\<close>.\<close>

definition track_entry :: "nat \<times> str \<Rightarrow> json" where
  "track_entry it =
     JDict [(lit ''file'', JStr (basename (snd it))), (lit ''order'', JInt (int (fst it) + 1))]"

text \<open>
  \<^verbatim>\<open>thumbnail_path\<close> is \<^verbatim>\<open>None\<close> or a string; \<^verbatim>\<open>if thumbnail_path\<close> holds for a non-empty
  string.
\<close>

definition has_thumbnail :: "str option \<Rightarrow> bool" where
  "has_thumbnail thumbnail_path = (case thumbnail_path of None \<Rightarrow> False | Some p \<Rightarrow> p \<noteq> [])"

definition build_meta :: "str list \<Rightarrow> str \<Rightarrow> str option \<Rightarrow> json" where
  "build_meta tracks play_mode thumbnail_path =
     JDict
       [(lit ''play_mode'', JStr play_mode),
        (lit ''tracks'', JList (map track_entry (enumerate 0 tracks))),
        (lit ''thumbnail'',
           if has_thumbnail thumbnail_path then JStr (basename (the thumbnail_path)) else JNull)]"

text \<open>Lines 26 to 35: the thumbnail section.\<close>

definition build_thumbnail :: "pyenv \<Rightarrow> str option \<Rightarrow> exn + bytes" where
  "build_thumbnail E thumbnail_path =
     (if has_thumbnail thumbnail_path then
        bind_exn (open_read E (the thumbnail_path)) (\<lambda>thumb_data.
        bind_exn (utf8_encode E (basename (the thumbnail_path))) (\<lambda>thumb_name.
        bind_exn (pack_H (length thumb_name)) (\<lambda>name_len.
        bind_exn (pack_I (length thumb_data)) (\<lambda>data_len.
          Inr (name_len @ thumb_name @ data_len @ thumb_data)))))
      else pack_H 0)"

text \<open>Lines 39 to 46: the loop over the track paths, giving the bytes it appends.\<close>

fun build_tracks :: "pyenv \<Rightarrow> str list \<Rightarrow> exn + bytes" where
  "build_tracks E [] = Inr []"
| "build_tracks E (tpath # rest) =
     bind_exn (open_read E tpath) (\<lambda>tdata.
     bind_exn (utf8_encode E (basename tpath)) (\<lambda>tname.
     bind_exn (pack_H (length tname)) (\<lambda>name_len.
     bind_exn (pack_I (length tdata)) (\<lambda>data_len.
     bind_exn (build_tracks E rest) (\<lambda>others.
       Inr (name_len @ tname @ data_len @ tdata @ others))))))"

text \<open>
  The whole function. Its value is the content of \<^verbatim>\<open>moda_data\<close> written to
  \<^verbatim>\<open>output_path\<close>, or the first exception raised.
\<close>

definition build_moda_file :: "pyenv \<Rightarrow> str list \<Rightarrow> str \<Rightarrow> str option \<Rightarrow> str \<Rightarrow> exn + bytes" where
  "build_moda_file E tracks play_mode thumbnail_path output_path =
     bind_exn (utf8_encode E (json_dumps E (build_meta tracks play_mode thumbnail_path)))
       (\<lambda>meta_json.
     bind_exn (pack_I (length meta_json)) (\<lambda>json_len.
     bind_exn (build_thumbnail E thumbnail_path) (\<lambda>thumb.
     bind_exn (pack_H (length tracks)) (\<lambda>track_count.
     bind_exn (build_tracks E tracks) (\<lambda>body.
       if can_write E output_path
       then Inr (MODA_MAGIC @ json_len @ meta_json @ thumb @ track_count @ body)
       else Inl OSError)))))"

section \<open>The decompiler: \<^verbatim>\<open>ModaDecompiler.extract_moda\<close>\<close>

text \<open>
  Every step takes the bytes of the file not yet read and gives the files it wrote, in
  order, with either the exception raised or its value and the bytes left. A file is
  written as soon as its section is read, so what was written before an exception stays
  written.
\<close>

text \<open>Lines 26 to 32: the thumbnail, written under \<open>dir\<close>.\<close>

definition extract_thumbnail :: "pyenv \<Rightarrow> str \<Rightarrow> bytes \<Rightarrow> file_write list \<times> (exn + bytes)" where
  "extract_thumbnail E dir f =
     bind_io (io (unpack_H (fst (f_read 2 f)))) (\<lambda>thumb_name_len.
       let f1 = snd (f_read 2 f) in
       if thumb_name_len > 0 then
         bind_io (io (utf8_decode E (fst (f_read thumb_name_len f1)))) (\<lambda>thumb_name.
           let f2 = snd (f_read thumb_name_len f1) in
         bind_io (io (unpack_I (fst (f_read 4 f2)))) (\<lambda>thumb_size.
           let f3 = snd (f_read 4 f2); thumb_data = fst (f_read thumb_size f3) in
         bind_io (open_write E (path_join dir thumb_name) (Binary thumb_data)) (\<lambda>_.
           io (Inr (snd (f_read thumb_size f3))))))
       else io (Inr f1))"

text \<open>Lines 36 to 43: \<^verbatim>\<open>for _ in range(track_count)\<close>, each track written under \<open>dir\<close>.\<close>

fun extract_tracks :: "pyenv \<Rightarrow> str \<Rightarrow> nat \<Rightarrow> bytes \<Rightarrow> file_write list \<times> (exn + bytes)" where
  "extract_tracks E dir 0 f = io (Inr f)"
| "extract_tracks E dir (Suc k) f =
     bind_io (io (unpack_H (fst (f_read 2 f)))) (\<lambda>track_name_len.
       let f1 = snd (f_read 2 f) in
     bind_io (io (utf8_decode E (fst (f_read track_name_len f1)))) (\<lambda>track_name.
       let f2 = snd (f_read track_name_len f1) in
     bind_io (io (unpack_I (fst (f_read 4 f2)))) (\<lambda>track_size.
       let f3 = snd (f_read 4 f2); track_data = fst (f_read track_size f3) in
     bind_io (open_write E (path_join dir track_name) (Binary track_data)) (\<lambda>_.
       extract_tracks E dir k (snd (f_read track_size f3))))))"

text \<open>
  The body of the \<^verbatim>\<open>try\<close> block, lines 15 to 49, on the content \<open>f\<close> of the file at
  \<^verbatim>\<open>filepath\<close>: the files written and the metadata returned.
\<close>

definition extract_body :: "pyenv \<Rightarrow> bytes \<Rightarrow> str \<Rightarrow> file_write list \<times> (exn + json)" where
  "extract_body E f output_dir =
     (let magic = fst (f_read 4 f); f1 = snd (f_read 4 f) in
      if magic \<noteq> MODA_MAGIC then io (Inl NotValidModa) else
      bind_io (io (unpack_I (fst (f_read 4 f1)))) (\<lambda>json_len.
        let f2 = snd (f_read 4 f1) in
      bind_io (io (utf8_decode E (fst (f_read json_len f2)))) (\<lambda>meta_json.
      bind_io (io (json_loads E meta_json)) (\<lambda>meta.
      bind_io (extract_thumbnail E output_dir (snd (f_read json_len f2))) (\<lambda>f3.
      bind_io (io (unpack_H (fst (f_read 2 f3)))) (\<lambda>track_count.
      bind_io (extract_tracks E output_dir track_count (snd (f_read 2 f3))) (\<lambda>_.
      bind_io (open_write E (path_join output_dir (lit ''meta.json''))
                 (Text (json_dumps E meta))) (\<lambda>_.
        io (Inr meta)))))))))"

text \<open>Lines 50 and 51: every exception is raised again as a \<^verbatim>\<open>ValueError\<close>.\<close>

definition extract_moda :: "pyenv \<Rightarrow> bytes \<Rightarrow> str \<Rightarrow> file_write list \<times> (exn + json)" where
  "extract_moda E f output_dir =
     (case snd (extract_body E f output_dir) of
        Inl e \<Rightarrow> (fst (extract_body E f output_dir), Inl (ErrorExtracting e))
      | Inr meta \<Rightarrow> (fst (extract_body E f output_dir), Inr meta))"

section \<open>The player: \<^verbatim>\<open>ModaPlayer\<close>\<close>

subsection \<open>State\<close>

text \<open>
  A channel of \<^verbatim>\<open>pygame.mixer\<close>: the sound it is playing, if any, and whether an end event
  was set on it with \<^verbatim>\<open>set_endevent(pygame.USEREVENT)\<close>.
\<close>

record channel =
  busy :: "sound option"
  endevent :: bool

text \<open>The calls made to the mixer, in order; \<open>MixerSound p ok\<close> is \<^verbatim>\<open>mixer.Sound(p)\<close>.\<close>

datatype mixer_call =
    MixerStop
  | MixerSound str bool
  | ChannelPlay nat sound

text \<open>
  A thread whose target is \<^verbatim>\<open>_play_sound\<close>, by the point it has reached: started and not
  yet past \<^verbatim>\<open>mixer.find_channel()\<close>; holding the channel that \<^verbatim>\<open>find_channel\<close> returned,
  before \<^verbatim>\<open>channel.play(sound)\<close>; past \<^verbatim>\<open>channel.play\<close>, or past the \<^verbatim>\<open>if channel:\<close> when
  there was no channel (what is left is the waiting loop, which changes nothing).
\<close>

datatype thread = Ready sound | Found nat sound | Done

text \<open>
  The fields of a \<^verbatim>\<open>ModaPlayer\<close>, as \<^verbatim>\<open>__init__\<close> lists them, then what the player acts on:
  the threads it has started (those of earlier sessions too: a thread is not ended by
  \<^verbatim>\<open>stop\<close>), the channels of the mixer, the calls made to the mixer and the files written.
  \<open>tracks_meta\<close> and \<open>play_mode\<close> hold whatever \<^verbatim>\<open>meta.get\<close> returned; a thread object of
  \<open>audio_threads\<close> is named by the sound it was created for.
\<close>

record player =
  temp_dir :: "str option"
  current_track :: nat
  is_playing :: bool
  tracks_meta :: json
  play_mode :: json
  thumbnail_path :: "str option"
  audio_threads :: "sound list"
  sound_objects :: "sound list"
  running :: "thread list"
  channels :: "channel list"
  calls :: "mixer_call list"
  written :: "file_write list"

text \<open>
  \<^verbatim>\<open>__init__\<close>, lines 16 to 26. \<^verbatim>\<open>mixer.init\<close> opens the mixer with the 8 channels of
  pygame's default; the programs never call \<^verbatim>\<open>set_num_channels\<close>.
\<close>

definition idle :: channel where
  "idle = \<lparr>busy = None, endevent = False\<rparr>"

definition new_player :: player where
  "new_player =
     \<lparr>temp_dir = None, current_track = 0, is_playing = False, tracks_meta = JList [],
      play_mode = JStr [], thumbnail_path = None, audio_threads = [], sound_objects = [],
      running = [], channels = replicate 8 idle, calls = [], written = []\<rparr>"

subsection \<open>Python's operations on the metadata\<close>

text \<open>\<^verbatim>\<open>meta.get(key, default)\<close>; only a dictionary has \<^verbatim>\<open>get\<close>.\<close>

definition py_get :: "json \<Rightarrow> str \<Rightarrow> json \<Rightarrow> exn + json" where
  "py_get meta key dflt =
     (case meta of
        JDict items \<Rightarrow> Inr (case map_of items key of None \<Rightarrow> dflt | Some v \<Rightarrow> v)
      | _ \<Rightarrow> Inl AttributeError)"

text \<open>Truth value, as in \<^verbatim>\<open>if not self.tracks_meta\<close>.\<close>

definition py_truthy :: "json \<Rightarrow> bool" where
  "py_truthy v =
     (case v of
        JNull \<Rightarrow> False
      | JBool b \<Rightarrow> b
      | JInt i \<Rightarrow> i \<noteq> 0
      | JStr x \<Rightarrow> x \<noteq> []
      | JList xs \<Rightarrow> xs \<noteq> []
      | JDict items \<Rightarrow> items \<noteq> [])"

text \<open>\<^verbatim>\<open>len(v)\<close>.\<close>

definition py_len :: "json \<Rightarrow> exn + nat" where
  "py_len v =
     (case v of
        JStr x \<Rightarrow> Inr (length x)
      | JList xs \<Rightarrow> Inr (length xs)
      | JDict items \<Rightarrow> Inr (length items)
      | _ \<Rightarrow> Inl TypeError)"

text \<open>
  \<^verbatim>\<open>v[i]\<close> for an index \<open>i\<close> below \<^verbatim>\<open>len(v)\<close>: an element of a list, a character of a
  string; an integer is no key of a dictionary read from JSON.
\<close>

definition py_index :: "json \<Rightarrow> nat \<Rightarrow> exn + json" where
  "py_index v i =
     (case v of
        JList xs \<Rightarrow> Inr (xs ! i)
      | JStr x \<Rightarrow> Inr (JStr [x ! i])
      | JDict items \<Rightarrow> Inl KeyError
      | _ \<Rightarrow> Inl TypeError)"

text \<open>The values of \<^verbatim>\<open>for track in v\<close>: a dictionary gives its keys, a string its characters.\<close>

definition py_iter :: "json \<Rightarrow> exn + json list" where
  "py_iter v =
     (case v of
        JList xs \<Rightarrow> Inr xs
      | JStr x \<Rightarrow> Inr (map (\<lambda>c. JStr [c]) x)
      | JDict items \<Rightarrow> Inr (map (\<lambda>kv. JStr (fst kv)) items)
      | _ \<Rightarrow> Inl TypeError)"

text \<open>\<^verbatim>\<open>os.path.join(self.temp_dir, track["file"])\<close>: both must be strings.\<close>

definition track_path :: "str option \<Rightarrow> json \<Rightarrow> exn + str" where
  "track_path dir track =
     (case track of
        JDict items \<Rightarrow>
          (case map_of items (lit ''file'') of
             None \<Rightarrow> Inl KeyError
           | Some (JStr name) \<Rightarrow>
               (case dir of None \<Rightarrow> Inl TypeError | Some d \<Rightarrow> Inr (path_join d name))
           | Some _ \<Rightarrow> Inl TypeError)
      | _ \<Rightarrow> Inl TypeError)"

subsection \<open>\<^verbatim>\<open>load_moda\<close>, lines 28 to 69\<close>

text \<open>A step that changes the player and may raise; \<open>bind_st\<close> runs the next step.\<close>

definition bind_st ::
  "player \<times> (exn + 'a) \<Rightarrow> (player \<Rightarrow> 'a \<Rightarrow> player \<times> (exn + 'b)) \<Rightarrow> player \<times> (exn + 'b)" where
  "bind_st m f = (case snd m of Inl e \<Rightarrow> (fst m, Inl e) | Inr x \<Rightarrow> f (fst m) x)"

definition write_file :: "pyenv \<Rightarrow> str \<Rightarrow> content \<Rightarrow> player \<Rightarrow> player \<times> (exn + unit)" where
  "write_file E path data s =
     (if can_write E path then (s\<lparr>written := written s @ [(path, data)]\<rparr>, Inr ())
      else (s, Inl OSError))"

text \<open>Lines 43 to 50: \<^verbatim>\<open>self.thumbnail_path\<close> is set before the file is opened.\<close>

definition load_thumbnail :: "pyenv \<Rightarrow> bytes \<Rightarrow> player \<Rightarrow> player \<times> (exn + bytes)" where
  "load_thumbnail E f s =
     bind_st (s, unpack_H (fst (f_read 2 f))) (\<lambda>s thumb_name_len.
       let f1 = snd (f_read 2 f) in
       if thumb_name_len > 0 then
         bind_st (s, utf8_decode E (fst (f_read thumb_name_len f1))) (\<lambda>s thumb_name.
           let f2 = snd (f_read thumb_name_len f1) in
         bind_st (s, unpack_I (fst (f_read 4 f2))) (\<lambda>s thumb_size.
           let f3 = snd (f_read 4 f2); thumb_data = fst (f_read thumb_size f3);
               path = path_join (gettempdir E) thumb_name in
         bind_st (write_file E path (Binary thumb_data) (s\<lparr>thumbnail_path := Some path\<rparr>))
           (\<lambda>s _. (s, Inr (snd (f_read thumb_size f3))))))
       else (s, Inr f1))"

text \<open>Lines 56 to 65: the same loop as in the decompiler, writing under \<^verbatim>\<open>self.temp_dir\<close>.\<close>

definition load_tracks :: "pyenv \<Rightarrow> str \<Rightarrow> nat \<Rightarrow> bytes \<Rightarrow> player \<Rightarrow> player \<times> (exn + bytes)" where
  "load_tracks E dir track_count f s =
     (s\<lparr>written := written s @ fst (extract_tracks E dir track_count f)\<rparr>,
      snd (extract_tracks E dir track_count f))"

text \<open>The body of the \<^verbatim>\<open>try\<close> block on the content \<open>f\<close> of the file.\<close>

definition load_body :: "pyenv \<Rightarrow> bytes \<Rightarrow> player \<Rightarrow> player \<times> (exn + json)" where
  "load_body E f s =
     (let magic = fst (f_read 4 f); f1 = snd (f_read 4 f) in
      if magic \<noteq> MODA_MAGIC then (s, Inl NotValidModa) else
      bind_st (s, unpack_I (fst (f_read 4 f1))) (\<lambda>s json_len.
        let f2 = snd (f_read 4 f1) in
      bind_st (s, utf8_decode E (fst (f_read json_len f2))) (\<lambda>s meta_json.
      bind_st (s, json_loads E meta_json) (\<lambda>s meta.
      bind_st (s, py_get meta (lit ''play_mode'') (JStr (lit ''sequential''))) (\<lambda>s pm.
      bind_st (s\<lparr>play_mode := pm\<rparr>, py_get meta (lit ''tracks'') (JList [])) (\<lambda>s tm.
      bind_st (load_thumbnail E (snd (f_read json_len f2)) (s\<lparr>tracks_meta := tm\<rparr>)) (\<lambda>s f3.
      bind_st (s, case mkdtemp E (lit ''moda_'') of None \<Rightarrow> Inl OSError | Some d \<Rightarrow> Inr d)
        (\<lambda>s d.
      bind_st (s\<lparr>temp_dir := Some d\<rparr>, unpack_H (fst (f_read 2 f3))) (\<lambda>s track_count.
      bind_st (load_tracks E d track_count (snd (f_read 2 f3)) s) (\<lambda>s _.
        (s, Inr meta)))))))))))"

text \<open>Lines 68 and 69: every exception is raised again as a \<^verbatim>\<open>ValueError\<close>.\<close>

definition load_moda :: "pyenv \<Rightarrow> bytes \<Rightarrow> player \<Rightarrow> player \<times> (exn + json)" where
  "load_moda E f s =
     (case snd (load_body E f s) of
        Inl e \<Rightarrow> (fst (load_body E f s), Inl (ErrorLoading e))
      | Inr meta \<Rightarrow> (fst (load_body E f s), Inr meta))"

subsection \<open>The mixer\<close>

text \<open>\<^verbatim>\<open>mixer.find_channel()\<close>: the first channel that plays nothing, \<^verbatim>\<open>None\<close> if all are busy.\<close>

definition find_channel :: "channel list \<Rightarrow> nat option" where
  "find_channel cs =
     (if \<exists>c\<in>set cs. busy c = None
      then Some (length (takeWhile (\<lambda>c. busy c \<noteq> None) cs))
      else None)"

text \<open>\<^verbatim>\<open>channel.play(sound)\<close> on channel \<open>i\<close>.\<close>

definition channel_play :: "nat \<Rightarrow> sound \<Rightarrow> player \<Rightarrow> player" where
  "channel_play i snd_obj s =
     s\<lparr>channels := (channels s)[i := (channels s ! i)\<lparr>busy := Some snd_obj\<rparr>],
       calls := calls s @ [ChannelPlay i snd_obj]\<rparr>"

text \<open>\<^verbatim>\<open>stop\<close>, lines 134 to 138; \<^verbatim>\<open>mixer.stop()\<close> stops every channel.\<close>

definition stop :: "player \<Rightarrow> player" where
  "stop s =
     s\<lparr>channels := map (\<lambda>c. c\<lparr>busy := None\<rparr>) (channels s),
       calls := calls s @ [MixerStop],
       is_playing := False,
       current_track := 0,
       sound_objects := []\<rparr>"

subsection \<open>\<^verbatim>\<open>play_parallel\<close> and \<^verbatim>\<open>_play_sound\<close>, lines 71 to 105\<close>

text \<open>
  Lines 77 to 84: the loop that loads the sounds, over the values \<open>ts\<close> of
  \<^verbatim>\<open>self.tracks_meta\<close>. The path is computed outside the \<^verbatim>\<open>try\<close>: its exception leaves
  the loop; the exception of \<^verbatim>\<open>mixer.Sound\<close> is caught and the track skipped.
\<close>

fun load_sounds :: "pyenv \<Rightarrow> json list \<Rightarrow> player \<Rightarrow> player \<times> exn option" where
  "load_sounds E [] s = (s, None)"
| "load_sounds E (track # ts) s =
     (case track_path (temp_dir s) track of
        Inl e \<Rightarrow> (s, Some e)
      | Inr path \<Rightarrow>
          if sound_loads E path
          then load_sounds E ts
                 (s\<lparr>sound_objects := sound_objects s @ [Sound path],
                    calls := calls s @ [MixerSound path True]\<rparr>)
          else load_sounds E ts (s\<lparr>calls := calls s @ [MixerSound path False]\<rparr>))"

text \<open>
  \<^verbatim>\<open>_play_sound\<close>, lines 99 to 105, one step of it at a time for the thread number \<open>i\<close> of
  \<open>running\<close>: \<^verbatim>\<open>mixer.find_channel()\<close> with the \<^verbatim>\<open>if channel:\<close>, then \<^verbatim>\<open>channel.play(sound)\<close>.
  The threads share the mixer without a lock, so between the two steps of one thread other
  threads may take theirs.
\<close>

definition thread_step :: "nat \<Rightarrow> player \<Rightarrow> player" where
  "thread_step i s =
     (if i < length (running s) then
        (case running s ! i of
           Ready x \<Rightarrow>
             (case find_channel (channels s) of
                None \<Rightarrow> s\<lparr>running := (running s)[i := Done]\<rparr>
              | Some c \<Rightarrow> s\<lparr>running := (running s)[i := Found c x]\<rparr>)
         | Found c x \<Rightarrow> (channel_play c x s)\<lparr>running := (running s)[i := Done]\<rparr>
         | Done \<Rightarrow> s)
      else s)"

text \<open>
  A schedule is the list of the threads that take a step, in the order the interpreter
  lets them.
\<close>

fun run_threads :: "nat list \<Rightarrow> player \<Rightarrow> player" where
  "run_threads [] s = s"
| "run_threads (i # sched) s = run_threads sched (thread_step i s)"

text \<open>
  The schedule in which the \<open>n\<close> threads from number \<open>j\<close> on run one after the other, each
  up to its waiting loop before the next takes a step.
\<close>

fun in_turn :: "nat \<Rightarrow> nat \<Rightarrow> nat list" where
  "in_turn j 0 = []"
| "in_turn j (Suc n) = j # j # in_turn (Suc j) n"

text \<open>
  Lines 75 to 97: what \<^verbatim>\<open>play_parallel\<close> does after its call of \<^verbatim>\<open>self.stop()\<close>. It makes a
  thread for each sound and starts them, which makes them ready to run; it does not wait for
  them. The steps of the threads are taken by \<open>thread_step\<close>. The first thread is started
  after the last sound was loaded, and from then on \<^verbatim>\<open>play_parallel\<close> only starts the other
  threads and sets \<open>is_playing\<close>, which no step of a thread reads or writes; so a step that a
  thread takes before \<^verbatim>\<open>play_parallel\<close> returns has the effect of the same step taken
  after it.
\<close>

definition start_parallel :: "pyenv \<Rightarrow> player \<Rightarrow> player \<times> exn option" where
  "start_parallel E s =
     (let s1 = s\<lparr>sound_objects := []\<rparr> in
      case py_iter (tracks_meta s1) of
        Inl e \<Rightarrow> (s1, Some e)
      | Inr ts \<Rightarrow>
          (case load_sounds E ts s1 of
             (s2, Some e) \<Rightarrow> (s2, Some e)
           | (s2, None) \<Rightarrow>
               (s2\<lparr>audio_threads := sound_objects s2,
                   running := running s2 @ map Ready (sound_objects s2),
                   is_playing := True\<rparr>, None)))"

definition play_parallel :: "pyenv \<Rightarrow> player \<Rightarrow> player \<times> exn option" where
  "play_parallel E s = start_parallel E (stop s)"

subsection \<open>\<^verbatim>\<open>play_sequential\<close>, lines 107 to 123\<close>

text \<open>
  The path of the current track, computed before the \<^verbatim>\<open>try\<close>: line 110 and line 111.
\<close>

definition current_path :: "player \<Rightarrow> exn + str" where
  "current_path s =
     bind_exn (py_index (tracks_meta s) (current_track s)) (track_path (temp_dir s))"

text \<open>
  Lines 114 to 119, once \<^verbatim>\<open>mixer.Sound\<close> returned the sound of \<open>path\<close>. When
  \<^verbatim>\<open>find_channel\<close> gives no channel, the \<^verbatim>\<open>if channel:\<close> has no other branch.
\<close>

definition play_track :: "str \<Rightarrow> player \<Rightarrow> player" where
  "play_track path s =
     (let s1 = s\<lparr>sound_objects := [Sound path], calls := calls s @ [MixerSound path True]\<rparr>
      in case find_channel (channels s1) of
           None \<Rightarrow> s1
         | Some i \<Rightarrow>
             (let s2 = channel_play i (Sound path) s1;
                  s3 = s2\<lparr>channels := (channels s2)[i := (channels s2 ! i)\<lparr>endevent := True\<rparr>]\<rparr>
              in s3\<lparr>is_playing := True\<rparr>))"

text \<open>
  Line 110 and line 111 in a call that has no room left under the recursion limit: the
  subscripts are evaluated first and raise what they raise anywhere, then \<^verbatim>\<open>os.path.join\<close>,
  a Python function, cannot be entered.
\<close>

definition deep_path_error :: "player \<Rightarrow> exn" where
  "deep_path_error s =
     (case py_index (tracks_meta s) (current_track s) of
        Inl e \<Rightarrow> e
      | Inr (JDict items) \<Rightarrow>
          (case map_of items (lit ''file'') of None \<Rightarrow> KeyError | Some v \<Rightarrow> RecursionError)
      | Inr _ \<Rightarrow> TypeError)"

text \<open>
  Of the calls inside the \<^verbatim>\<open>try\<close>, \<^verbatim>\<open>mixer.Sound\<close> is the one that raises; the handler
  moves to the next track and calls the function again, one frame deeper. \<open>room\<close> is the
  number of nested calls, this one included, in which the calls of lines 111 to 123 fit
  under the recursion limit. A call without room is still entered and returns when no track
  is left; with a track left it raises at line 111, outside the \<^verbatim>\<open>try\<close>, and the error
  leaves every frame above through its handler, the cursor staying where it is.
\<close>

fun play_sequential :: "pyenv \<Rightarrow> nat \<Rightarrow> player \<Rightarrow> player \<times> exn option" where
  "play_sequential E room s =
     (case py_len (tracks_meta s) of
        Inl e \<Rightarrow> (s, Some e)
      | Inr n \<Rightarrow>
          if current_track s < n then
            (case room of
               0 \<Rightarrow> (s, Some (deep_path_error s))
             | Suc less_room \<Rightarrow>
                 (case current_path s of
                    Inl e \<Rightarrow> (s, Some e)
                  | Inr path \<Rightarrow>
                      if sound_loads E path then (play_track path s, None)
                      else
                        play_sequential E less_room
                          (s\<lparr>calls := calls s @ [MixerSound path False],
                             current_track := current_track s + 1\<rparr>)))
          else (s, None))"

subsection \<open>\<^verbatim>\<open>play\<close> and \<^verbatim>\<open>check_events\<close>, lines 125 to 149\<close>

definition play :: "pyenv \<Rightarrow> player \<Rightarrow> player \<times> exn option" where
  "play E s =
     (if \<not> py_truthy (tracks_meta s) then (s, None)
      else if play_mode s = JStr (lit ''parallel'') then play_parallel E s
      else play_sequential E (stack_room E) s)"

text \<open>An event of \<^verbatim>\<open>pygame.event.get()\<close>: the end event of a channel, or any other.\<close>

datatype event = USEREVENT | OtherEvent

text \<open>
  \<^verbatim>\<open>check_events\<close> on the events the queue holds; the value returned is \<open>is_playing\<close> of
  the player it gives.
\<close>

fun check_events :: "pyenv \<Rightarrow> event list \<Rightarrow> player \<Rightarrow> player \<times> exn option" where
  "check_events E [] s = (s, None)"
| "check_events E (ev # evs) s =
     (if ev = USEREVENT then
        (let s1 = s\<lparr>current_track := current_track s + 1\<rparr> in
         case py_len (tracks_meta s1) of
           Inl e \<Rightarrow> (s1, Some e)
         | Inr n \<Rightarrow>
             if current_track s1 < n then
               (case play_sequential E (stack_room E) s1 of
                  (s2, Some e) \<Rightarrow> (s2, Some e)
                | (s2, None) \<Rightarrow> check_events E evs s2)
             else check_events E evs (s1\<lparr>is_playing := False, current_track := 0\<rparr>))
      else check_events E evs s)"

section \<open>What the theorems speak about\<close>

subsection \<open>The laws of the library\<close>

text \<open>
  Decoding what \<^verbatim>\<open>encode('utf-8')\<close> produced gives the string back, and the empty bytes
  decode to the empty string. \<^verbatim>\<open>json.loads\<close> gives back the document \<open>m\<close> that
  \<^verbatim>\<open>json.dumps\<close> printed.
\<close>

definition utf8_laws :: "pyenv \<Rightarrow> bool" where
  "utf8_laws E \<longleftrightarrow>
     (\<forall>x b. utf8_encode E x = Inr b \<longrightarrow> utf8_decode E b = Inr x) \<and> utf8_decode E [] = Inr []"

definition json_law :: "pyenv \<Rightarrow> json \<Rightarrow> bool" where
  "json_law E m \<longleftrightarrow> json_loads E (json_dumps E m) = Inr m"

subsection \<open>The files a decoder is expected to write\<close>

definition file_content :: "pyenv \<Rightarrow> str \<Rightarrow> bytes" where
  "file_content E p = (case fs_read E p of None \<Rightarrow> [] | Some d \<Rightarrow> d)"

definition track_write :: "pyenv \<Rightarrow> str \<Rightarrow> str \<Rightarrow> file_write" where
  "track_write E dir t = (path_join dir (basename t), Binary (file_content E t))"

definition thumb_write :: "pyenv \<Rightarrow> str \<Rightarrow> str option \<Rightarrow> file_write list" where
  "thumb_write E dir thumb =
     (if has_thumbnail thumb
      then [(path_join dir (basename (the thumb)), Binary (file_content E (the thumb)))]
      else [])"

definition meta_write :: "pyenv \<Rightarrow> str \<Rightarrow> json \<Rightarrow> file_write" where
  "meta_write E dir meta = (path_join dir (lit ''meta.json''), Text (json_dumps E meta))"

text \<open>Every file the decompiler is to write under \<open>dir\<close> can be opened for writing.\<close>

definition extraction_writable :: "pyenv \<Rightarrow> str \<Rightarrow> str list \<Rightarrow> str option \<Rightarrow> bool" where
  "extraction_writable E dir tracks thumb \<longleftrightarrow>
     (has_thumbnail thumb \<longrightarrow> can_write E (path_join dir (basename (the thumb)))) \<and>
     (\<forall>t\<in>set tracks. can_write E (path_join dir (basename t))) \<and>
     can_write E (path_join dir (lit ''meta.json''))"

text \<open>\<^verbatim>\<open>meta["tracks"][i]["order"]\<close>, when the metadata has it.\<close>

definition track_order :: "json \<Rightarrow> nat \<Rightarrow> json option" where
  "track_order meta i =
     (case meta of
        JDict items \<Rightarrow>
          (case map_of items (lit ''tracks'') of
             Some (JList ts) \<Rightarrow>
               (if i < length ts
                then (case ts ! i of JDict entry \<Rightarrow> map_of entry (lit ''order'') | _ \<Rightarrow> None)
                else None)
           | _ \<Rightarrow> None)
      | _ \<Rightarrow> None)"

text \<open>The number of channels that are playing.\<close>

definition busy_channels :: "player \<Rightarrow> nat" where
  "busy_channels s = length (filter (\<lambda>c. busy c \<noteq> None) (channels s))"

subsection \<open>A concrete library and disk\<close>

text \<open>
  The library on the part of its domain the examples use. \<open>ascii_encode\<close> and
  \<open>ascii_decode\<close> are UTF-8 on ASCII text, where a character is one byte; outside ASCII
  they report an error, which Python does not, so the examples stay inside ASCII.
  \<open>table_dumps\<close> and \<open>table_loads\<close> are \<^verbatim>\<open>json.dumps(_, indent=2)\<close> and \<^verbatim>\<open>json.loads\<close> on
  the documents listed: \<open>demo_text\<close>, \<open>plain_text\<close> and \<open>empty_text\<close> are what Python prints
  for \<open>demo_meta\<close>, \<open>plain_meta\<close> and \<open>empty_meta\<close> (a line feed is the code point 10).
\<close>

definition ascii_encode :: "str \<Rightarrow> exn + bytes" where
  "ascii_encode x =
     (if \<forall>c\<in>set x. c < 128 then Inr (map word_of_nat x) else Inl UnicodeEncodeError)"

definition ascii_decode :: "bytes \<Rightarrow> exn + str" where
  "ascii_decode b =
     (if \<forall>x\<in>set b. x < 128 then Inr (map unat b) else Inl UnicodeDecodeError)"

definition demo_tracks :: "str list" where
  "demo_tracks = [lit ''in/a.wav'', lit ''b.wav'']"

definition demo_thumb :: "str option" where
  "demo_thumb = Some (lit ''art/t.png'')"

definition demo_meta :: json where
  "demo_meta = JDict
     [(lit ''play_mode'', JStr (lit ''parallel'')),
      (lit ''tracks'', JList
         [JDict [(lit ''file'', JStr (lit ''a.wav'')), (lit ''order'', JInt 1)],
          JDict [(lit ''file'', JStr (lit ''b.wav'')), (lit ''order'', JInt 2)]]),
      (lit ''thumbnail'', JStr (lit ''t.png''))]"

definition demo_text :: str where
  \<open>demo_text =
     lit ''{'' @ [10] @
     lit ''  "play_mode": "parallel",'' @ [10] @
     lit ''  "tracks": ['' @ [10] @
     lit ''    {'' @ [10] @
     lit ''      "file": "a.wav",'' @ [10] @
     lit ''      "order": 1'' @ [10] @
     lit ''    },'' @ [10] @
     lit ''    {'' @ [10] @
     lit ''      "file": "b.wav",'' @ [10] @
     lit ''      "order": 2'' @ [10] @
     lit ''    }'' @ [10] @
     lit ''  ],'' @ [10] @
     lit ''  "thumbnail": "t.png"'' @ [10] @
     lit ''}''\<close>

definition plain_meta :: json where
  "plain_meta = JDict
     [(lit ''play_mode'', JStr (lit ''sequential'')),
      (lit ''tracks'', JList
         [JDict [(lit ''file'', JStr (lit ''a.wav'')), (lit ''order'', JInt 1)]]),
      (lit ''thumbnail'', JNull)]"

definition plain_text :: str where
  \<open>plain_text =
     lit ''{'' @ [10] @
     lit ''  "play_mode": "sequential",'' @ [10] @
     lit ''  "tracks": ['' @ [10] @
     lit ''    {'' @ [10] @
     lit ''      "file": "a.wav",'' @ [10] @
     lit ''      "order": 1'' @ [10] @
     lit ''    }'' @ [10] @
     lit ''  ],'' @ [10] @
     lit ''  "thumbnail": null'' @ [10] @
     lit ''}''\<close>

definition empty_meta :: json where
  "empty_meta = JDict []"

definition empty_text :: str where
  "empty_text = lit ''{}''"

definition table_dumps :: "json \<Rightarrow> str" where
  "table_dumps m =
     (if m = demo_meta then demo_text
      else if m = plain_meta then plain_text
      else if m = empty_meta then empty_text
      else [])"

definition table_loads :: "str \<Rightarrow> exn + json" where
  "table_loads x =
     (if x = demo_text then Inr demo_meta
      else if x = plain_text then Inr plain_meta
      else if x = empty_text then Inr empty_meta
      else Inl JSONDecodeError)"

definition demo_fs :: "str \<Rightarrow> bytes option" where
  "demo_fs p =
     (if p = lit ''in/a.wav'' then Some [1, 2, 3]
      else if p = lit ''b.wav'' then Some [4]
      else if p = lit ''a.wav'' then Some [5, 6, 7]
      else if p = lit ''art/t.png'' then Some [9, 8]
      else None)"

text \<open>Every sound loads, except from a file whose name ends in \<^verbatim>\<open>x\<close>.\<close>

definition demo_env :: pyenv where
  "demo_env =
     \<lparr>utf8_encode = ascii_encode, utf8_decode = ascii_decode,
      json_dumps = table_dumps, json_loads = table_loads,
      fs_read = demo_fs, can_write = (\<lambda>p. True),
      gettempdir = lit ''/tmp'', mkdtemp = (\<lambda>prefix. Some (lit ''/tmp/'' @ prefix @ lit ''0'')),
      sound_loads = (\<lambda>p. p \<noteq> [] \<and> last p \<noteq> 120),
      stack_room = 900\<rparr>"

text \<open>What the compiler writes for \<open>demo_tracks\<close> in parallel mode with \<open>demo_thumb\<close>.\<close>

definition demo_file :: bytes where
  "demo_file = MODA_MAGIC @ [0, 0, 0, 177] @ map word_of_nat demo_text @
     ([0, 5] @ [116, 46, 112, 110, 103] @ [0, 0, 0, 2] @ [9, 8]) @ [0, 2] @
     ([0, 5] @ [97, 46, 119, 97, 118] @ [0, 0, 0, 3] @ [1, 2, 3] @
      [0, 5] @ [98, 46, 119, 97, 118] @ [0, 0, 0, 1] @ [4])"

text \<open>What it writes for the one track \<^verbatim>\<open>a.wav\<close> in sequential mode without a thumbnail.\<close>

definition plain_file :: bytes where
  "plain_file = MODA_MAGIC @ [0, 0, 0, 123] @ map word_of_nat plain_text @
     [0, 0] @ [0, 1] @ ([0, 5] @ [97, 46, 119, 97, 118] @ [0, 0, 0, 3] @ [5, 6, 7])"

subsection \<open>Players with a container loaded\<close>

text \<open>
  The player after \<^verbatim>\<open>load_moda\<close> read a container that the compiler built in mode \<open>mode\<close> from
  the files \<open>names\<close>, the tracks unpacked under \<^verbatim>\<open>/tmp/moda_0\<close> (the files written are left
  out). \<open>started\<close> is that player after a first call of \<^verbatim>\<open>play\<close>.
\<close>

definition loaded :: "str \<Rightarrow> str list \<Rightarrow> player" where
  "loaded mode names =
     new_player\<lparr>temp_dir := Some (lit ''/tmp/moda_0''), play_mode := JStr mode,
                tracks_meta := JList (map track_entry (enumerate 0 names))\<rparr>"

definition started :: "str \<Rightarrow> str list \<Rightarrow> player" where
  "started mode names = fst (play demo_env (loaded mode names))"

text \<open>A container whose metadata is the empty object, with no thumbnail and no track.\<close>

definition empty_file :: bytes where
  "empty_file = MODA_MAGIC @ [0, 0, 0, 2] @ [123, 125] @ [0, 0] @ [0, 0]"

text \<open>
  What the mixer does on its own: the sound on channel \<open>i\<close> ends (pygame then posts the
  end event of the channel, if one was set).
\<close>

definition channel_done :: "nat \<Rightarrow> player \<Rightarrow> player" where
  "channel_done i s = s\<lparr>channels := (channels s)[i := (channels s ! i)\<lparr>busy := None\<rparr>]\<rparr>"

text \<open>
  A sequential session of \<^verbatim>\<open>a.wav\<close> and \<^verbatim>\<open>b.wav\<close> after the first track ended and
  \<^verbatim>\<open>check_events\<close> moved on to the second.
\<close>

definition advanced :: player where
  "advanced =
     fst (check_events demo_env [USEREVENT]
            (channel_done 0 (started (lit ''sequential'') [lit ''a.wav'', lit ''b.wav''])))"

text \<open>
  A parallel session of \<^verbatim>\<open>a.wav\<close>, whose thread has started the sound, at the moment a
  container with no track is loaded.
\<close>

definition emptied :: player where
  "emptied =
     (run_threads [0, 0] (started (lit ''parallel'') [lit ''a.wav'']))\<lparr>tracks_meta := JList []\<rparr>"

text \<open>
  Ten tracks, of which the sixth does not load, and a player that has them loaded in
  parallel mode.
\<close>

definition ten_names :: "str list" where
  "ten_names =
     [lit ''0.wav'', lit ''1.wav'', lit ''2.wav'', lit ''3.wav'', lit ''4.wav'', lit ''5.x'',
      lit ''6.wav'', lit ''7.wav'', lit ''8.wav'', lit ''9.wav'']"



text \<open>The paths of the ten tracks once unpacked, and three tracks of which the second does not load.\<close>

definition ten_paths :: "str list" where
  "ten_paths =
     [lit ''/tmp/moda_0/0.wav'', lit ''/tmp/moda_0/1.wav'', lit ''/tmp/moda_0/2.wav'',
      lit ''/tmp/moda_0/3.wav'', lit ''/tmp/moda_0/4.wav'', lit ''/tmp/moda_0/5.x'',
      lit ''/tmp/moda_0/6.wav'', lit ''/tmp/moda_0/7.wav'', lit ''/tmp/moda_0/8.wav'',
      lit ''/tmp/moda_0/9.wav'']"

definition three_names :: "str list" where
  "three_names = [lit ''a.wav'', lit ''b.x'', lit ''c.wav'']"

definition three_paths :: "str list" where
  "three_paths = [lit ''/tmp/moda_0/a.wav'', lit ''/tmp/moda_0/b.x'', lit ''/tmp/moda_0/c.wav'']"


section \<open>Auxiliary facts\<close>

subsection \<open>Sequencing\<close>

lemma bind_exn_simps [simp]:
  "bind_exn (Inr x) f = f x" "bind_exn (Inl e) f = Inl e"
  by (simp_all add: bind_exn_def)

lemma bind_exn_eq_Inr: "bind_exn m f = Inr y \<longleftrightarrow> (\<exists>x. m = Inr x \<and> f x = Inr y)"
  by (cases m) simp_all

lemma bind_io_simps [simp]:
  "bind_io (w, Inr x) f = (w @ fst (f x), snd (f x))"
  "bind_io (w, Inl e) f = (w, Inl e)"
  by (simp_all add: bind_io_def)

lemma io_simps [simp]: "io r = ([], r)"
  by (simp add: io_def)

lemma bind_st_simps [simp]:
  "bind_st (s, Inr x) f = f s x"
  "bind_st (s, Inl e) f = (s, Inl e)"
  by (simp_all add: bind_st_def)

lemma f_read_simps [simp]: "fst (f_read n f) = take n f" "snd (f_read n f) = drop n f"
  by (simp_all add: f_read_def)

lemma open_write_ok [simp]: "can_write E p \<Longrightarrow> open_write E p c = ([(p, c)], Inr ())"
  by (simp add: open_write_def)

lemma length_MODA_MAGIC [simp]: "length MODA_MAGIC = 4"
  by (simp add: MODA_MAGIC_def)

subsection \<open>Packing and unpacking\<close>

lemma pack_H_Inr: "pack_H n = Inr b \<Longrightarrow> length b = 2 \<and> unpack_H b = Inr n"
proof -
  assume a: "pack_H n = Inr b"
  then have n: "n < 65536" and b: "b = [word_of_nat (n div 256), word_of_nat n]"
    by (auto simp: pack_H_def split: if_splits)
  have "unat (word_of_nat (n div 256) :: byte) = n div 256"
    using n by (simp add: unat_of_nat)
  moreover have "unat (word_of_nat n :: byte) = n mod 256"
    by (simp add: unat_of_nat)
  ultimately show ?thesis using b by (simp add: unpack_H_def)
qed

lemma be32_sum:
  fixes n :: nat
  shows "n div 16777216 * 16777216 + n div 65536 mod 256 * 65536 + n div 256 mod 256 * 256
           + n mod 256 = n"
proof -
  define a where "a = n div 256"
  define b where "b = a div 256"
  define c where "c = b div 256"
  define r0 where "r0 = n mod 256"
  define r1 where "r1 = a mod 256"
  define r2 where "r2 = b mod 256"
  have n: "n = 256 * a + r0" by (simp add: a_def r0_def)
  have a: "a = 256 * b + r1" by (simp add: b_def r1_def)
  have b: "b = 256 * c + r2" by (simp add: c_def r2_def)
  have b': "n div 65536 = b" by (simp add: b_def a_def div_mult2_eq)
  have c': "n div 16777216 = c" by (simp add: c_def b_def a_def div_mult2_eq)
  have "c * 16777216 + r2 * 65536 + r1 * 256 + r0 = n"
    using n a b by linarith
  then show ?thesis
    unfolding b' c' r2_def[symmetric] a_def[symmetric] r1_def[symmetric] r0_def[symmetric] .
qed

lemma pack_I_Inr: "pack_I n = Inr b \<Longrightarrow> length b = 4 \<and> unpack_I b = Inr n"
proof -
  assume a: "pack_I n = Inr b"
  then have n: "n < 4294967296"
    and b: "b = [word_of_nat (n div 16777216), word_of_nat (n div 65536),
                word_of_nat (n div 256), word_of_nat n]"
    by (auto simp: pack_I_def split: if_splits)
  have 3: "unat (word_of_nat (n div 16777216) :: byte) = n div 16777216"
    using n by (simp add: unat_of_nat)
  have 2: "unat (word_of_nat (n div 65536) :: byte) = n div 65536 mod 256"
    by (simp add: unat_of_nat)
  have 1: "unat (word_of_nat (n div 256) :: byte) = n div 256 mod 256"
    by (simp add: unat_of_nat)
  have 0: "unat (word_of_nat n :: byte) = n mod 256"
    by (simp add: unat_of_nat)
  show ?thesis unfolding b unpack_I_def using be32_sum[of n] by (simp add: 0 1 2 3)
qed

lemma pack_H_0 [simp]: "pack_H 0 = Inr [0, 0]"
  by (simp add: pack_H_def)

lemma unpack_H_0 [simp]: "unpack_H [0, 0] = Inr 0"
  by (simp add: unpack_H_def)

subsection \<open>What the compiler wrote is read back\<close>

lemma open_read_Inr: "open_read E p = Inr d \<Longrightarrow> file_content E p = d \<and> basename p \<noteq> []"
  by (cases p rule: rev_cases)
     (auto simp: open_read_def file_content_def basename_def split: if_splits option.splits)

lemma utf8_laws_decode: "utf8_laws E \<Longrightarrow> utf8_encode E x = Inr b \<Longrightarrow> utf8_decode E b = Inr x"
  by (simp add: utf8_laws_def)

lemma utf8_laws_nonempty:
  "utf8_laws E \<Longrightarrow> utf8_encode E x = Inr b \<Longrightarrow> x \<noteq> [] \<Longrightarrow> b \<noteq> []"
  by (auto simp: utf8_laws_def)

lemma extract_build_tracks:
  assumes "utf8_laws E" and "build_tracks E ts = Inr body"
    and "\<forall>t\<in>set ts. can_write E (path_join dir (basename t))"
  shows "extract_tracks E dir (length ts) (body @ rest) = (map (track_write E dir) ts, Inr rest)"
  using assms(2,3)
proof (induction ts arbitrary: body)
  case Nil
  then show ?case by simp
next
  case (Cons t ts)
  from Cons.prems(1) obtain tdata tname name_len data_len others where
    rd: "open_read E t = Inr tdata" and en: "utf8_encode E (basename t) = Inr tname"
    and nl: "pack_H (length tname) = Inr name_len" and dl: "pack_I (length tdata) = Inr data_len"
    and ot: "build_tracks E ts = Inr others"
    and body: "body = name_len @ tname @ data_len @ tdata @ others"
    by (auto simp: bind_exn_eq_Inr)
  have IH: "extract_tracks E dir (length ts) (others @ rest) = (map (track_write E dir) ts, Inr rest)"
    using Cons.IH [OF ot] Cons.prems(2) by simp
  have w: "can_write E (path_join dir (basename t))" using Cons.prems(2) by simp
  note nl' = pack_H_Inr [OF nl] and dl' = pack_I_Inr [OF dl]
  show ?case
    using IH w nl' dl' utf8_laws_decode [OF assms(1) en] open_read_Inr [OF rd]
    by (simp add: body track_write_def)
qed

lemma extract_build_thumbnail:
  assumes "utf8_laws E" and "build_thumbnail E tp = Inr thumb"
    and "has_thumbnail tp \<longrightarrow> can_write E (path_join dir (basename (the tp)))"
  shows "extract_thumbnail E dir (thumb @ rest) = (thumb_write E dir tp, Inr rest)"
proof (cases "has_thumbnail tp")
  case False
  with assms(2) have "thumb = [0, 0]" by (simp add: build_thumbnail_def)
  with False show ?thesis by (simp add: extract_thumbnail_def thumb_write_def)
next
  case True
  with assms(2) obtain thumb_data thumb_name name_len data_len where
    rd: "open_read E (the tp) = Inr thumb_data"
    and en: "utf8_encode E (basename (the tp)) = Inr thumb_name"
    and nl: "pack_H (length thumb_name) = Inr name_len"
    and dl: "pack_I (length thumb_data) = Inr data_len"
    and thumb: "thumb = name_len @ thumb_name @ data_len @ thumb_data"
    by (auto simp: build_thumbnail_def bind_exn_eq_Inr)
  have ne: "thumb_name \<noteq> []"
    using utf8_laws_nonempty [OF assms(1) en] open_read_Inr [OF rd] by simp
  have w: "can_write E (path_join dir (basename (the tp)))" using assms(3) True by simp
  show ?thesis
    using True ne w pack_H_Inr [OF nl] pack_I_Inr [OF dl] utf8_laws_decode [OF assms(1) en]
      open_read_Inr [OF rd]
    by (simp add: thumb extract_thumbnail_def thumb_write_def)
qed

lemma build_moda_file_Inr:
  assumes "build_moda_file E tracks mode tp output_path = Inr file"
  obtains meta_json json_len thumb track_count body where
    "utf8_encode E (json_dumps E (build_meta tracks mode tp)) = Inr meta_json"
    "pack_I (length meta_json) = Inr json_len"
    "build_thumbnail E tp = Inr thumb"
    "pack_H (length tracks) = Inr track_count"
    "build_tracks E tracks = Inr body"
    "file = MODA_MAGIC @ json_len @ meta_json @ thumb @ track_count @ body"
  using assms by (auto simp: build_moda_file_def bind_exn_eq_Inr split: if_splits)

lemma extract_build_body:
  assumes laws: "utf8_laws E"
    and json: "json_law E (build_meta tracks mode tp)"
    and build: "build_moda_file E tracks mode tp output_path = Inr file"
    and wr: "extraction_writable E dir tracks tp"
  shows "extract_body E file dir =
           (thumb_write E dir tp @ map (track_write E dir) tracks @
              [meta_write E dir (build_meta tracks mode tp)],
            Inr (build_meta tracks mode tp))"
proof -
  let ?meta = "build_meta tracks mode tp"
  from build obtain meta_json json_len thumb track_count body where
    en: "utf8_encode E (json_dumps E ?meta) = Inr meta_json"
    and jl: "pack_I (length meta_json) = Inr json_len"
    and th: "build_thumbnail E tp = Inr thumb"
    and tc: "pack_H (length tracks) = Inr track_count"
    and bd: "build_tracks E tracks = Inr body"
    and fl: "file = MODA_MAGIC @ json_len @ meta_json @ thumb @ track_count @ body"
    by (rule build_moda_file_Inr)
  have 1: "extract_thumbnail E dir (thumb @ track_count @ body) =
             (thumb_write E dir tp, Inr (track_count @ body))"
    using extract_build_thumbnail [OF laws th] wr by (simp add: extraction_writable_def)
  have 2: "extract_tracks E dir (length tracks) body = (map (track_write E dir) tracks, Inr [])"
    using extract_build_tracks [OF laws bd, of dir "[]"] wr by (simp add: extraction_writable_def)
  have 3: "json_loads E (json_dumps E ?meta) = Inr ?meta"
    using json by (simp add: json_law_def)
  have 4: "can_write E (path_join dir (lit ''meta.json''))"
    using wr by (simp add: extraction_writable_def)
  show ?thesis
    using 1 2 3 4 pack_I_Inr [OF jl] pack_H_Inr [OF tc] utf8_laws_decode [OF laws en]
    by (simp add: fl extract_body_def meta_write_def)
qed

lemma extract_build_moda:
  assumes "utf8_laws E" and "json_law E (build_meta tracks mode tp)"
    and "build_moda_file E tracks mode tp output_path = Inr file"
    and "extraction_writable E dir tracks tp"
  shows "extract_moda E file dir =
           (thumb_write E dir tp @ map (track_write E dir) tracks @
              [meta_write E dir (build_meta tracks mode tp)],
            Inr (build_meta tracks mode tp))"
  by (simp add: extract_moda_def extract_build_body [OF assms])

subsection \<open>The concrete library\<close>

lemma ascii_laws: "utf8_laws demo_env"
proof -
  have "map unat (map word_of_nat x :: bytes) = x" if "\<forall>c\<in>set x. c < 128" for x :: str
    using that by (induction x) (simp_all add: unat_of_nat)
  moreover have "\<forall>b\<in>set (map word_of_nat x :: bytes). b < 128" if "\<forall>c\<in>set x. c < 128" for x :: str
    using that by (induction x) (simp_all add: word_less_nat_alt unat_of_nat)
  ultimately show ?thesis
    by (auto simp: utf8_laws_def demo_env_def ascii_encode_def ascii_decode_def split: if_splits)
qed

lemma demo_env_sel:
  "utf8_encode demo_env = ascii_encode" "utf8_decode demo_env = ascii_decode"
  "json_dumps demo_env = table_dumps" "json_loads demo_env = table_loads"
  "fs_read demo_env = demo_fs" "can_write demo_env = (\<lambda>p. True)"
  by (simp_all add: demo_env_def)

lemma demo_meta_eq: "build_meta demo_tracks (lit ''parallel'') demo_thumb = demo_meta"
  by (simp add: build_meta_def demo_tracks_def demo_thumb_def demo_meta_def has_thumbnail_def
      track_entry_def enumerate_eq_zip basename_def lit_def sep_def)

lemma plain_meta_eq: "build_meta [lit ''a.wav''] (lit ''sequential'') None = plain_meta"
  by (simp add: build_meta_def plain_meta_def has_thumbnail_def
      track_entry_def enumerate_eq_zip basename_def lit_def sep_def)

lemma length_demo_text: "length demo_text = 177"
  by (simp add: demo_text_def lit_def)

lemma length_plain_text: "length plain_text = 123"
  by (simp add: plain_text_def lit_def)

lemma ascii_demo_text: "ascii_encode demo_text = Inr (map word_of_nat demo_text)"
  by (simp add: ascii_encode_def demo_text_def lit_def)

lemma ascii_plain_text: "ascii_encode plain_text = Inr (map word_of_nat plain_text)"
  by (simp add: ascii_encode_def plain_text_def lit_def)

lemma demo_plain_neq: "demo_meta \<noteq> plain_meta" "demo_text \<noteq> plain_text"
  using length_demo_text length_plain_text
  by (auto simp: demo_meta_def plain_meta_def lit_def)

lemma dumps_demo: "table_dumps demo_meta = demo_text" "table_dumps plain_meta = plain_text"
  using demo_plain_neq by (simp_all add: table_dumps_def)

lemma loads_demo: "table_loads demo_text = Inr demo_meta" "table_loads plain_text = Inr plain_meta"
  using demo_plain_neq by (simp_all add: table_loads_def)

lemma json_law_demo: "json_law demo_env demo_meta" "json_law demo_env plain_meta"
  by (simp_all add: json_law_def demo_env_sel dumps_demo loads_demo)

lemma demo_thumbnail: "build_thumbnail demo_env demo_thumb =
    Inr ([0, 5] @ [116, 46, 112, 110, 103] @ [0, 0, 0, 2] @ [9, 8])"
  by (simp add: build_thumbnail_def has_thumbnail_def demo_thumb_def demo_env_def open_read_def
      demo_fs_def basename_def ascii_encode_def pack_H_def pack_I_def lit_def sep_def)

lemma demo_body: "build_tracks demo_env demo_tracks =
    Inr ([0, 5] @ [97, 46, 119, 97, 118] @ [0, 0, 0, 3] @ [1, 2, 3] @
         [0, 5] @ [98, 46, 119, 97, 118] @ [0, 0, 0, 1] @ [4])"
  by (simp add: demo_tracks_def demo_env_def open_read_def
      demo_fs_def basename_def ascii_encode_def pack_H_def pack_I_def lit_def sep_def)

lemma plain_body: "build_tracks demo_env [lit ''a.wav''] =
    Inr ([0, 5] @ [97, 46, 119, 97, 118] @ [0, 0, 0, 3] @ [5, 6, 7])"
  by (simp add: demo_env_def open_read_def
      demo_fs_def basename_def ascii_encode_def pack_H_def pack_I_def lit_def sep_def)

lemma length_demo_tracks: "length demo_tracks = 2"
  by (simp add: demo_tracks_def)

lemma demo_build:
  "build_moda_file demo_env demo_tracks (lit ''parallel'') demo_thumb (lit ''x.moda'') = Inr demo_file"
  unfolding build_moda_file_def demo_meta_eq demo_env_sel dumps_demo ascii_demo_text
    bind_exn_simps length_map length_demo_text demo_thumbnail demo_body length_demo_tracks
  by (simp add: pack_I_def pack_H_def demo_file_def)

lemma plain_build:
  "build_moda_file demo_env [lit ''a.wav''] (lit ''sequential'') None (lit ''x.moda'') = Inr plain_file"
  unfolding build_moda_file_def plain_meta_eq demo_env_sel dumps_demo ascii_plain_text
    bind_exn_simps length_map length_plain_text plain_body
  by (simp add: pack_I_def pack_H_def plain_file_def build_thumbnail_def has_thumbnail_def)

lemma demo_writable: "extraction_writable demo_env dir tracks thumb"
  by (simp add: extraction_writable_def demo_env_sel)

lemma length_empty_text: "length empty_text = 2"
  by (simp add: empty_text_def lit_def)

lemma empty_neq: "empty_text \<noteq> demo_text" "empty_text \<noteq> plain_text"
  using length_demo_text length_plain_text length_empty_text by fastforce+

lemma loads_empty: "table_loads empty_text = Inr empty_meta"
  using empty_neq by (simp add: table_loads_def)

subsection \<open>The player\<close>

lemma stop_sel [simp]:
  "is_playing (stop s) = False" "current_track (stop s) = 0" "sound_objects (stop s) = []"
  "calls (stop s) = calls s @ [MixerStop]" "tracks_meta (stop s) = tracks_meta s"
  "play_mode (stop s) = play_mode s" "temp_dir (stop s) = temp_dir s"
  "channels (stop s) = map (\<lambda>c. c\<lparr>busy := None\<rparr>) (channels s)"
  "running (stop s) = running s"
  by (simp_all add: stop_def)

lemma load_sounds_sel:
  "current_track (fst (load_sounds E ts s)) = current_track s \<and>
   (\<exists>more. calls (fst (load_sounds E ts s)) = calls s @ more)"
proof (induction ts arbitrary: s)
  case Nil
  then show ?case by simp
next
  case (Cons t ts)
  show ?case
  proof (cases "track_path (temp_dir s) t")
    case (Inl e)
    then show ?thesis by simp
  next
    case (Inr path)
    let ?s1 = "s\<lparr>sound_objects := sound_objects s @ [Sound path],
                  calls := calls s @ [MixerSound path True]\<rparr>"
    let ?s2 = "s\<lparr>calls := calls s @ [MixerSound path False]\<rparr>"
    from Cons.IH [of ?s1] obtain m1 where
      1: "calls (fst (load_sounds E ts ?s1)) = calls s @ MixerSound path True # m1"
      and c1: "current_track (fst (load_sounds E ts ?s1)) = current_track s" by auto
    from Cons.IH [of ?s2] obtain m2 where
      2: "calls (fst (load_sounds E ts ?s2)) = calls s @ MixerSound path False # m2"
      and c2: "current_track (fst (load_sounds E ts ?s2)) = current_track s" by auto
    show ?thesis using Inr 1 2 c1 c2 by simp
  qed
qed

lemma start_parallel_sel:
  "current_track (fst (start_parallel E s)) = current_track s \<and>
   (\<exists>more. calls (fst (start_parallel E s)) = calls s @ more)"
proof (cases "py_iter (tracks_meta s)")
  case (Inl e)
  then show ?thesis by (simp add: start_parallel_def)
next
  case (Inr ts)
  let ?s1 = "s\<lparr>sound_objects := []\<rparr>"
  obtain s2 r where l: "load_sounds E ts ?s1 = (s2, r)" by (cases "load_sounds E ts ?s1")
  from load_sounds_sel [of E ts ?s1] l obtain m1 where
    1: "calls s2 = calls s @ m1" and c1: "current_track s2 = current_track s" by auto
  show ?thesis
  proof (cases r)
    case (Some e)
    then show ?thesis using Inr l 1 c1 by (simp add: start_parallel_def)
  next
    case None
    then show ?thesis using Inr l 1 c1 by (simp add: start_parallel_def)
  qed
qed

subsection \<open>A container cut short\<close>



















subsection \<open>Facts on the player\<close>

declare play_sequential.simps [simp del]

lemma bind_st_eq_Inr:
  "bind_st m f = (s', Inr y) \<longleftrightarrow> (\<exists>s1 x. m = (s1, Inr x) \<and> f s1 x = (s', Inr y))"
  by (cases m; cases "snd m") (auto simp: bind_st_def)

lemma write_file_play_mode [simp]: "play_mode (fst (write_file E p c s)) = play_mode s"
  by (simp add: write_file_def)

lemma bind_st_play_mode:
  assumes "play_mode (fst m) = v" and "\<And>s x. play_mode s = v \<Longrightarrow> play_mode (fst (f s x)) = v"
  shows "play_mode (fst (bind_st m f)) = v"
  using assms by (cases m; cases "snd m") (auto simp: bind_st_def)

lemma load_thumbnail_play_mode [simp]: "play_mode (fst (load_thumbnail E f s)) = play_mode s"
  unfolding load_thumbnail_def
  by (intro bind_st_play_mode) (simp_all add: Let_def bind_st_play_mode)

lemma load_tracks_play_mode [simp]: "play_mode (fst (load_tracks E d n f s)) = play_mode s"
  by (simp add: load_tracks_def)

lemma load_moda_play_mode:
  assumes "load_moda E f s = (s', Inr meta)"
  shows "py_get meta (lit ''play_mode'') (JStr (lit ''sequential'')) = Inr (play_mode s')"
proof -
  from assms have b: "load_body E f s = (s', Inr meta)"
    by (cases "load_body E f s"; cases "snd (load_body E f s)") (auto simp: load_moda_def)
  then show ?thesis
    unfolding load_body_def Let_def
    apply (simp split: if_splits add: bind_st_eq_Inr)
    apply (elim exE conjE)
    apply (drule arg_cong [where f = "\<lambda>p. play_mode (fst p)"])
    apply (drule arg_cong [where f = "\<lambda>p. play_mode (fst p)"])
    apply simp
    done
qed

lemma demo_sound_loads: "sound_loads demo_env p \<longleftrightarrow> p \<noteq> [] \<and> last p \<noteq> 120"
  by (simp add: demo_env_def)

lemma demo_room: "stack_room demo_env = Suc 899"
  by (simp add: demo_env_def)

lemma find_channel_simps [simp]:
  "find_channel [] = None"
  "find_channel (c # cs) =
     (if busy c = None then Some 0 else map_option Suc (find_channel cs))"
  by (auto simp: find_channel_def)

lemma replicate_8: "replicate 8 x = [x, x, x, x, x, x, x, x]"
  by (simp add: numeral_eq_Suc)

lemma tp_a: "track_path (Some (lit ''/tmp/moda_0'')) (track_entry (i, lit ''a.wav'')) = Inr (lit ''/tmp/moda_0/a.wav'')"
  by (simp add: track_path_def track_entry_def path_join_def basename_def lit_def sep_def)

lemma tp_b: "track_path (Some (lit ''/tmp/moda_0'')) (track_entry (i, lit ''b.wav'')) = Inr (lit ''/tmp/moda_0/b.wav'')"
  by (simp add: track_path_def track_entry_def path_join_def basename_def lit_def sep_def)

lemma loads_ab: "sound_loads demo_env (lit ''/tmp/moda_0/a.wav'')" "sound_loads demo_env (lit ''/tmp/moda_0/b.wav'')"
  by (simp_all add: demo_sound_loads lit_def)

lemma started_seq:
  "started (lit ''sequential'') [lit ''a.wav'', lit ''b.wav''] =
     (loaded (lit ''sequential'') [lit ''a.wav'', lit ''b.wav''])
       \<lparr>is_playing := True, sound_objects := [Sound (lit ''/tmp/moda_0/a.wav'')],
        channels := \<lparr>busy = Some (Sound (lit ''/tmp/moda_0/a.wav'')), endevent = True\<rparr> # replicate 7 idle,
        calls := [MixerSound (lit ''/tmp/moda_0/a.wav'') True, ChannelPlay 0 (Sound (lit ''/tmp/moda_0/a.wav''))]\<rparr>"
proof -
  have m: "lit ''sequential'' \<noteq> lit ''parallel''" by (simp add: lit_def)
  show ?thesis
    unfolding started_def play_def demo_room
      play_sequential.simps [of demo_env "Suc 899" "loaded (lit ''sequential'') [lit ''a.wav'', lit ''b.wav'']"]
    by (simp add: m loaded_def new_player_def py_truthy_def py_len_def current_path_def py_index_def
        enumerate_eq_zip tp_a loads_ab channel_play_def play_track_def idle_def numeral_eq_Suc)
qed

lemma track_path_entry:
  "track_path (Some d) (track_entry (i, t)) = Inr (path_join d (basename t))"
  by (simp add: track_path_def track_entry_def lit_def)

lemma find_channel_busy:
  assumes "\<forall>c\<in>set bs. busy c \<noteq> None"
  shows "find_channel (bs @ cs) = map_option (\<lambda>i. length bs + i) (find_channel cs)"
proof -
  have "takeWhile (\<lambda>c. busy c \<noteq> None) (bs @ cs) = bs @ takeWhile (\<lambda>c. busy c \<noteq> None) cs"
    using assms by (simp add: takeWhile_append2)
  then show ?thesis
    using assms by (auto simp: find_channel_def)
qed

lemma load_sounds_paths:
  "map (track_path (temp_dir s)) ts = map Inr paths \<Longrightarrow>
   load_sounds E ts s =
     (s\<lparr>sound_objects := sound_objects s @ map Sound (filter (sound_loads E) paths),
        calls := calls s @ map (\<lambda>p. MixerSound p (sound_loads E p)) paths\<rparr>, None)"
proof (induction ts arbitrary: s paths)
  case Nil
  then show ?case by simp
next
  case (Cons t ts)
  then obtain p ps where paths: "paths = p # ps" and p: "track_path (temp_dir s) t = Inr p"
    and ps: "map (track_path (temp_dir s)) ts = map Inr ps"
    by (cases paths) auto
  show ?case
    using p ps by (simp add: paths Cons.IH [of _ ps])
qed

lemma thread_step_sel [simp]:
  "length (channels (thread_step i s)) = length (channels s)"
  "length (running (thread_step i s)) = length (running s)"
  "sound_objects (thread_step i s) = sound_objects s"
  "current_track (thread_step i s) = current_track s"
  "is_playing (thread_step i s) = is_playing s"
  by (simp_all add: thread_step_def channel_play_def split: thread.split option.split)

lemma run_threads_sel [simp]:
  "length (channels (run_threads sched s)) = length (channels s)"
  "sound_objects (run_threads sched s) = sound_objects s"
  "current_track (run_threads sched s) = current_track s"
  "is_playing (run_threads sched s) = is_playing s"
  by (induction sched arbitrary: s) simp_all

lemma filter_update_count:
  "i < length xs \<Longrightarrow>
   length (filter P (xs[i := y])) + (if P (xs ! i) then 1 else 0) =
   length (filter P xs) + (if P y then 1 else 0)"
proof (induction xs arbitrary: i)
  case Nil
  then show ?case by simp
next
  case (Cons x xs)
  show ?case
  proof (cases i)
    case 0
    then show ?thesis by simp
  next
    case (Suc j)
    then have "j < length xs" using Cons.prems by simp
    from Cons.IH [OF this] show ?thesis by (simp add: Suc)
  qed
qed

lemma filter_update_le:
  "length (filter P (xs[i := y])) \<le> Suc (length (filter P xs))"
proof (cases "i < length xs")
  case True
  from filter_update_count [OF this, of P y] show ?thesis by (simp split: if_splits)
next
  case False
  then have "xs[i := y] = xs" by (simp add: list_update_beyond)
  then show ?thesis by simp
qed

text \<open>
  A step of a thread never lets the channels in use and the threads that have not yet
  passed \<^verbatim>\<open>channel.play\<close> grow together.
\<close>

lemma thread_step_bound:
  "busy_channels (thread_step i s) + length (filter (\<lambda>t. t \<noteq> Done) (running (thread_step i s))) \<le>
   busy_channels s + length (filter (\<lambda>t. t \<noteq> Done) (running s))"
proof (cases "i < length (running s)")
  case False
  then show ?thesis by (simp add: thread_step_def)
next
  case True
  note cnt = filter_update_count [OF True, of "\<lambda>t. t \<noteq> Done"]
  show ?thesis
  proof (cases "running s ! i")
    case (Ready x)
    show ?thesis
    proof (cases "find_channel (channels s)")
      case None
      then show ?thesis
        using True Ready cnt [of Done] by (simp add: thread_step_def busy_channels_def)
    next
      case (Some c)
      then show ?thesis
        using True Ready cnt [of "Found c x"] by (simp add: thread_step_def busy_channels_def)
    qed
  next
    case (Found c x)
    have "length (filter (\<lambda>c. busy c \<noteq> None) ((channels s)[c := (channels s ! c)\<lparr>busy := Some x\<rparr>])) \<le>
        Suc (length (filter (\<lambda>c. busy c \<noteq> None) (channels s)))"
      by (rule filter_update_le)
    then show ?thesis
      using True Found cnt [of Done]
      by (simp add: thread_step_def busy_channels_def channel_play_def)
  next
    case Done
    then show ?thesis using True by (simp add: thread_step_def)
  qed
qed

lemma run_threads_bound:
  "busy_channels (run_threads sched s) + length (filter (\<lambda>t. t \<noteq> Done) (running (run_threads sched s))) \<le>
   busy_channels s + length (filter (\<lambda>t. t \<noteq> Done) (running s))"
proof (induction sched arbitrary: s)
  case Nil
  then show ?case by simp
next
  case (Cons i sched)
  from Cons.IH [of "thread_step i s"] thread_step_bound [of i s]
  show ?case by simp
qed

lemma busy_channels_le: "busy_channels s \<le> length (channels s)"
  by (simp add: busy_channels_def)

text \<open>The threads running one after the other, in the order they were started.\<close>

lemma in_turn_run:
  assumes "channels s = bs @ cs" and "\<forall>c\<in>set bs. busy c \<noteq> None" and "\<forall>c\<in>set cs. busy c = None"
    and "running s = pre @ map Ready xs"
  shows "run_threads (in_turn (length pre) (length xs)) s =
           s\<lparr>channels := bs @ map (\<lambda>(c, x). c\<lparr>busy := Some x\<rparr>) (zip cs xs) @ drop (length xs) cs,
             calls := calls s @
               map (\<lambda>(i, x). ChannelPlay i x) (enumerate (length bs) (take (length cs) xs)),
             running := pre @ replicate (length xs) Done\<rparr>"
  using assms
proof (induction xs arbitrary: s bs cs pre)
  case Nil
  then show ?case by simp
next
  case (Cons x xs)
  have r: "length pre < length (running s)" "running s ! length pre = Ready x"
    using Cons.prems(4) by simp_all
  have u: "(running s)[length pre := t] = (pre @ [t]) @ map Ready xs" for t
    using Cons.prems(4) by simp
  have n: "length (pre @ [Done]) = Suc (length pre)" by simp
  show ?case
  proof (cases cs)
    case Nil
    have f: "find_channel (channels s) = None"
      using Cons.prems find_channel_busy [of bs "[]"] by (simp add: Nil)
    let ?s = "s\<lparr>running := (pre @ [Done]) @ map Ready xs\<rparr>"
    have 1: "thread_step (length pre) s = ?s"
      using r f u [of Done] by (simp add: thread_step_def)
    have 2: "thread_step (length pre) ?s = ?s"
      by (simp add: thread_step_def nth_append)
    have ch: "channels ?s = bs @ []" using Cons.prems(1) by (simp add: Nil)
    have ru: "running ?s = (pre @ [Done]) @ map Ready xs" by simp
    have st: "run_threads (in_turn (length pre) (length (x # xs))) s =
        run_threads (in_turn (length (pre @ [Done])) (length xs)) ?s"
      by (simp only: length_Cons in_turn.simps run_threads.simps 1 2 n)
    have "run_threads (in_turn (length (pre @ [Done])) (length xs)) ?s =
        ?s\<lparr>channels := bs @ map (\<lambda>(c, x). c\<lparr>busy := Some x\<rparr>) (zip [] xs) @ drop (length xs) [],
          calls := calls ?s @
            map (\<lambda>(i, x). ChannelPlay i x) (enumerate (length bs) (take (length ([]::channel list)) xs)),
          running := (pre @ [Done]) @ replicate (length xs) Done\<rparr>"
      by (rule Cons.IH [OF ch Cons.prems(2) _ ru]) simp
    then show ?thesis
      unfolding st using Cons.prems(1) by (simp add: Nil replicate_app_Cons_same)
  next
    case (Cons c cs')
    have f: "find_channel (channels s) = Some (length bs)"
      using Cons.prems(1-3) find_channel_busy [of bs cs] by (simp add: Cons)
    let ?c = "c\<lparr>busy := Some x\<rparr>"
    let ?s1 = "s\<lparr>running := (pre @ [Found (length bs) x]) @ map Ready xs\<rparr>"
    let ?s = "s\<lparr>channels := (bs @ [?c]) @ cs', calls := calls s @ [ChannelPlay (length bs) x],
                 running := (pre @ [Done]) @ map Ready xs\<rparr>"
    have 1: "thread_step (length pre) s = ?s1"
      using r f u [of "Found (length bs) x"] by (simp add: thread_step_def)
    have 2: "thread_step (length pre) ?s1 = ?s"
      using Cons.prems(1) by (simp add: thread_step_def nth_append channel_play_def Cons)
    have ch: "channels ?s = (bs @ [?c]) @ cs'" by simp
    have ru: "running ?s = (pre @ [Done]) @ map Ready xs" by simp
    have b: "\<forall>c\<in>set (bs @ [?c]). busy c \<noteq> None" using Cons.prems(2) by simp
    have i: "\<forall>c\<in>set cs'. busy c = None" using Cons.prems(3) by (simp add: Cons)
    have st: "run_threads (in_turn (length pre) (length (x # xs))) s =
        run_threads (in_turn (length (pre @ [Done])) (length xs)) ?s"
      by (simp only: length_Cons in_turn.simps run_threads.simps 1 2 n)
    have "run_threads (in_turn (length (pre @ [Done])) (length xs)) ?s =
        ?s\<lparr>channels := (bs @ [?c]) @ map (\<lambda>(c, x). c\<lparr>busy := Some x\<rparr>) (zip cs' xs) @ drop (length xs) cs',
          calls := calls ?s @
            map (\<lambda>(i, x). ChannelPlay i x) (enumerate (length (bs @ [?c])) (take (length cs') xs)),
          running := (pre @ [Done]) @ replicate (length xs) Done\<rparr>"
      by (rule Cons.IH [OF ch b i ru])
    then show ?thesis
      unfolding st by (simp add: Cons replicate_app_Cons_same)
  qed
qed

lemma start_parallel_paths:
  assumes "tracks_meta s = JList ts" and "map (track_path (temp_dir s)) ts = map Inr paths"
  shows "start_parallel E s =
     (s\<lparr>sound_objects := map Sound (filter (sound_loads E) paths),
        audio_threads := map Sound (filter (sound_loads E) paths),
        running := running s @ map Ready (map Sound (filter (sound_loads E) paths)),
        is_playing := True,
        calls := calls s @ map (\<lambda>p. MixerSound p (sound_loads E p)) paths\<rparr>,
      None)"
proof -
  let ?s1 = "s\<lparr>sound_objects := []\<rparr>"
  let ?xs = "map Sound (filter (sound_loads E) paths)"
  have l: "load_sounds E ts ?s1 =
     (?s1\<lparr>sound_objects := ?xs, calls := calls s @ map (\<lambda>p. MixerSound p (sound_loads E p)) paths\<rparr>, None)"
    using load_sounds_paths [of ?s1 ts paths E] assms(2) by simp
  show ?thesis
    using l by (simp add: start_parallel_def assms(1) py_iter_def)
qed

lemma current_path_nth:
  assumes "tracks_meta s = JList ts" and "map (track_path (temp_dir s)) ts = map Inr paths"
    and "current_track s < length paths"
  shows "current_path s = Inr (paths ! current_track s)" and "py_len (tracks_meta s) = Inr (length paths)"
proof -
  have len: "length ts = length paths"
    using assms(2) by (metis length_map)
  have "track_path (temp_dir s) (ts ! current_track s) = Inr (paths ! current_track s)"
    using assms(2,3) len by (metis nth_map)
  then show "current_path s = Inr (paths ! current_track s)"
    by (simp add: current_path_def assms(1) py_index_def)
  show "py_len (tracks_meta s) = Inr (length paths)"
    by (simp add: assms(1) py_len_def len)
qed

lemma deep_path_error_wf:
  assumes "tracks_meta s = JList ts" and "map (track_path (temp_dir s)) ts = map Inr paths"
    and "current_track s < length paths"
  shows "deep_path_error s = RecursionError"
proof -
  have len: "length ts = length paths"
    using assms(2) by (metis length_map)
  have "track_path (temp_dir s) (ts ! current_track s) = Inr (paths ! current_track s)"
    using assms(2,3) len by (metis nth_map)
  then show ?thesis
    by (simp add: deep_path_error_def assms(1) py_index_def track_path_def
        split: json.splits option.splits)
qed

text \<open>
  What \<^verbatim>\<open>play_sequential\<close> does with the room \<open>r\<close>: it skips the tracks that fail to load and
  plays the first that loads, or it runs out of room on the way.
\<close>

lemma play_sequential_room:
  assumes "tracks_meta s = JList ts" and "map (track_path (temp_dir s)) ts = map Inr paths"
    and "current_track s \<le> length paths"
  shows "play_sequential E r s =
     (let fails = takeWhile (\<lambda>p. \<not> sound_loads E p) (drop (current_track s) paths);
          j = current_track s + length fails;
          s1 = s\<lparr>calls := calls s @ map (\<lambda>p. MixerSound p False) fails, current_track := j\<rparr>
      in if r \<le> length fails \<and> current_track s + r < length paths
         then (s\<lparr>calls := calls s @ map (\<lambda>p. MixerSound p False) (take r fails),
                 current_track := current_track s + r\<rparr>, Some RecursionError)
         else if j < length paths then (play_track (paths ! j) s1, None) else (s1, None))"
  using assms
proof (induction r arbitrary: s)
  case 0
  have len: "length ts = length paths" using "0.prems"(2) by (metis length_map)
  show ?case
  proof (cases "current_track s < length paths")
    case True
    note cp = current_path_nth [OF "0.prems"(1,2) True]
    show ?thesis
      by (subst play_sequential.simps)
         (simp add: cp True deep_path_error_wf [OF "0.prems"(1,2) True] Let_def)
  next
    case False
    then have i: "current_track s = length paths" using "0.prems"(3) by simp
    show ?thesis
      by (subst play_sequential.simps) (simp add: i "0.prems"(1) py_len_def len)
  qed
next
  case (Suc r)
  have len: "length ts = length paths" using Suc.prems(2) by (metis length_map)
  show ?case
  proof (cases "current_track s < length paths")
    case False
    then have i: "current_track s = length paths" using Suc.prems(3) by simp
    show ?thesis
      by (subst play_sequential.simps) (simp add: i Suc.prems(1) py_len_def len)
  next
    case i: True
    note cp = current_path_nth [OF Suc.prems(1,2) i]
    have d: "drop (current_track s) paths = paths ! current_track s # drop (Suc (current_track s)) paths"
      using i by (simp add: Cons_nth_drop_Suc)
    show ?thesis
    proof (cases "sound_loads E (paths ! current_track s)")
      case True
      then show ?thesis
        by (subst play_sequential.simps) (simp add: cp i d)
    next
      case False
      let ?s = "s\<lparr>calls := calls s @ [MixerSound (paths ! current_track s) False],
                   current_track := Suc (current_track s)\<rparr>"
      have IH: "play_sequential E r ?s =
       (let fails = takeWhile (\<lambda>p. \<not> sound_loads E p) (drop (current_track ?s) paths);
            j = current_track ?s + length fails;
            s1 = ?s\<lparr>calls := calls ?s @ map (\<lambda>p. MixerSound p False) fails, current_track := j\<rparr>
        in if r \<le> length fails \<and> current_track ?s + r < length paths
           then (?s\<lparr>calls := calls ?s @ map (\<lambda>p. MixerSound p False) (take r fails),
                   current_track := current_track ?s + r\<rparr>, Some RecursionError)
           else if j < length paths then (play_track (paths ! j) s1, None) else (s1, None))"
        by (rule Suc.IH) (use Suc.prems i in simp_all)
      show ?thesis
        by (subst play_sequential.simps) (simp add: cp i d False IH Let_def)
    qed
  qed
qed

lemma play_sequential_run:
  assumes "tracks_meta s = JList ts" and "map (track_path (temp_dir s)) ts = map Inr paths"
    and "current_track s \<le> length paths" and "length paths - current_track s < r"
  shows "play_sequential E r s =
     (let fails = takeWhile (\<lambda>p. \<not> sound_loads E p) (drop (current_track s) paths);
          j = current_track s + length fails;
          s1 = s\<lparr>calls := calls s @ map (\<lambda>p. MixerSound p False) fails, current_track := j\<rparr>
      in if j < length paths then (play_track (paths ! j) s1, None) else (s1, None))"
proof -
  have "length (takeWhile (\<lambda>p. \<not> sound_loads E p) (drop (current_track s) paths)) \<le>
      length paths - current_track s"
    using length_takeWhile_le [of "\<lambda>p. \<not> sound_loads E p" "drop (current_track s) paths"] by simp
  then have "\<not> r \<le> length (takeWhile (\<lambda>p. \<not> sound_loads E p) (drop (current_track s) paths))"
    using assms(4) by simp
  then show ?thesis
    unfolding play_sequential_room [OF assms(1-3)] Let_def by simp
qed

lemma check_events_one:
  assumes "tracks_meta s = JList ts" and "map (track_path (temp_dir s)) ts = map Inr paths"
  shows "check_events E [USEREVENT] s =
     (if Suc (current_track s) < length paths
      then play_sequential E (stack_room E) (s\<lparr>current_track := Suc (current_track s)\<rparr>)
      else (s\<lparr>current_track := 0, is_playing := False\<rparr>, None))"
proof -
  have len: "length ts = length paths" using assms(2) by (metis length_map)
  show ?thesis
    by (cases "play_sequential E (stack_room E) (s\<lparr>current_track := Suc (current_track s)\<rparr>)")
       (auto simp: assms(1) py_len_def len split: option.splits)
qed




lemma play_track_cursor [simp]: "current_track (play_track p s) = current_track s"
  by (simp add: play_track_def channel_play_def Let_def split: option.splits)

lemma mode_neq: "lit ''sequential'' \<noteq> lit ''parallel''" "lit ''shuffle'' \<noteq> lit ''parallel''"
  by (simp_all add: lit_def)

lemma loaded_sel [simp]:
  "tracks_meta (loaded mode names) = JList (map track_entry (enumerate 0 names))"
  "play_mode (loaded mode names) = JStr mode"
  "temp_dir (loaded mode names) = Some (lit ''/tmp/moda_0'')"
  "current_track (loaded mode names) = 0"
  "calls (loaded mode names) = []"
  "channels (loaded mode names) = replicate 8 idle"
  "is_playing (loaded mode names) = False"
  "running (loaded mode names) = []"
  by (simp_all add: loaded_def new_player_def)

lemma play_sequential_empty:
  "py_len (tracks_meta s) = Inr 0 \<Longrightarrow> play_sequential E r s = (s, None)"
  by (subst play_sequential.simps) simp


lemma load_empty:
  "load_moda demo_env empty_file new_player =
     (new_player\<lparr>play_mode := JStr (lit ''sequential''), tracks_meta := JList [],
                 temp_dir := Some (lit ''/tmp/moda_0'')\<rparr>, Inr empty_meta)"
proof -
  have d: "ascii_decode [123, 125] = Inr empty_text"
    by (simp add: ascii_decode_def empty_text_def lit_def)
  have u: "unpack_I [0, 0, 0, 2] = Inr 2" by (simp add: unpack_I_def)
  have t: "lit ''/tmp/'' @ lit ''moda_'' @ lit ''0'' = lit ''/tmp/moda_0''" by (simp add: lit_def)
  show ?thesis
    by (simp add: load_moda_def load_body_def empty_file_def demo_env_def d u loads_empty
        empty_meta_def py_get_def load_thumbnail_def load_tracks_def t)
qed


lemma entry_paths:
  "map (track_path (Some d)) (map track_entry (enumerate n names)) =
     map Inr (map (\<lambda>t. path_join d (basename t)) names)"
  by (induction names arbitrary: n) (simp_all add: track_path_entry)

lemma join_ab:
  "path_join (lit ''/tmp/moda_0'') (basename (lit ''a.wav'')) = lit ''/tmp/moda_0/a.wav''"
  "path_join (lit ''/tmp/moda_0'') (basename (lit ''b.wav'')) = lit ''/tmp/moda_0/b.wav''"
  "path_join (lit ''/tmp/moda_0'') (basename (lit ''b.x'')) = lit ''/tmp/moda_0/b.x''"
  by (simp_all add: path_join_def basename_def lit_def sep_def)


lemma advanced_eq:
  "advanced =
     (loaded (lit ''sequential'') [lit ''a.wav'', lit ''b.wav''])
       \<lparr>current_track := 1, is_playing := True,
        sound_objects := [Sound (lit ''/tmp/moda_0/b.wav'')],
        channels := \<lparr>busy = Some (Sound (lit ''/tmp/moda_0/b.wav'')), endevent = True\<rparr> # replicate 7 idle,
        calls := [MixerSound (lit ''/tmp/moda_0/a.wav'') True, ChannelPlay 0 (Sound (lit ''/tmp/moda_0/a.wav'')),
                  MixerSound (lit ''/tmp/moda_0/b.wav'') True, ChannelPlay 0 (Sound (lit ''/tmp/moda_0/b.wav''))]\<rparr>"
proof -
  let ?s = "channel_done 0 (started (lit ''sequential'') [lit ''a.wav'', lit ''b.wav''])"
  let ?ts = "map track_entry (enumerate 0 [lit ''a.wav'', lit ''b.wav''])"
  let ?paths = "[lit ''/tmp/moda_0/a.wav'', lit ''/tmp/moda_0/b.wav'']"
  have tm: "tracks_meta ?s = JList ?ts" and td: "temp_dir ?s = Some (lit ''/tmp/moda_0'')"
    and ct: "current_track ?s = 0"
    by (simp_all add: channel_done_def started_seq)
  have wf: "map (track_path (temp_dir ?s)) ?ts = map Inr ?paths"
    unfolding td entry_paths by (simp add: join_ab)
  let ?s1 = "?s\<lparr>current_track := Suc (current_track ?s)\<rparr>"
  have tm1: "tracks_meta ?s1 = JList ?ts" and ct1: "current_track ?s1 = 1"
    using tm ct by simp_all
  have wf1: "map (track_path (temp_dir ?s1)) ?ts = map Inr ?paths"
    using wf by simp
  have le: "current_track ?s1 \<le> length ?paths" using ct1 by simp
  have rm: "length ?paths - current_track ?s1 < Suc 899" by simp
  have ce: "check_events demo_env [USEREVENT] ?s = play_sequential demo_env (Suc 899) ?s1"
    using check_events_one [OF tm wf, of demo_env] ct by (simp add: demo_room)
  have fc: "find_channel (channels ?s1) = Some 0"
    by (simp add: channel_done_def started_seq)
  show ?thesis
    unfolding advanced_def ce play_sequential_run [OF tm1 wf1 le rm]
    by (simp add: ct loads_ab)
       (simp add: channel_done_def started_seq play_track_def channel_play_def)
qed


lemma advanced_play:
  "play demo_env advanced =
     (advanced
       \<lparr>channels := \<lparr>busy = Some (Sound (lit ''/tmp/moda_0/b.wav'')), endevent = True\<rparr> #
                    \<lparr>busy = Some (Sound (lit ''/tmp/moda_0/b.wav'')), endevent = True\<rparr> # replicate 6 idle,
        calls := [MixerSound (lit ''/tmp/moda_0/a.wav'') True, ChannelPlay 0 (Sound (lit ''/tmp/moda_0/a.wav'')),
                  MixerSound (lit ''/tmp/moda_0/b.wav'') True, ChannelPlay 0 (Sound (lit ''/tmp/moda_0/b.wav'')),
                  MixerSound (lit ''/tmp/moda_0/b.wav'') True, ChannelPlay 1 (Sound (lit ''/tmp/moda_0/b.wav''))]\<rparr>,
      None)"
proof -
  let ?ts = "map track_entry (enumerate 0 [lit ''a.wav'', lit ''b.wav''])"
  let ?paths = "[lit ''/tmp/moda_0/a.wav'', lit ''/tmp/moda_0/b.wav'']"
  have tm: "tracks_meta advanced = JList ?ts" and td: "temp_dir advanced = Some (lit ''/tmp/moda_0'')"
    and ct: "current_track advanced = 1" and pm: "play_mode advanced = JStr (lit ''sequential'')"
    by (simp_all add: advanced_eq)
  have wf: "map (track_path (temp_dir advanced)) ?ts = map Inr ?paths"
    unfolding td entry_paths by (simp add: join_ab)
  have le: "current_track advanced \<le> length ?paths" using ct by simp
  have rm: "length ?paths - current_track advanced < Suc 899" by simp
  have p: "play demo_env advanced = play_sequential demo_env (Suc 899) advanced"
    by (simp add: play_def tm pm mode_neq py_truthy_def enumerate_eq_zip demo_room)
  show ?thesis
    unfolding p play_sequential_run [OF tm wf le rm]
    by (simp add: ct loads_ab)
       (simp add: advanced_eq play_track_def channel_play_def idle_def numeral_eq_Suc)
qed

lemma started_par:
  "started (lit ''parallel'') [lit ''a.wav''] =
     (loaded (lit ''parallel'') [lit ''a.wav''])
       \<lparr>is_playing := True, sound_objects := [Sound (lit ''/tmp/moda_0/a.wav'')],
        audio_threads := [Sound (lit ''/tmp/moda_0/a.wav'')],
        running := [Ready (Sound (lit ''/tmp/moda_0/a.wav''))],
        calls := [MixerStop, MixerSound (lit ''/tmp/moda_0/a.wav'') True]\<rparr>"
  unfolding started_def play_def play_parallel_def
  by (simp add: py_truthy_def enumerate_eq_zip start_parallel_def py_iter_def tp_a loads_ab
      stop_def loaded_def new_player_def idle_def numeral_eq_Suc)

lemma emptied_eq:
  "emptied =
     (loaded (lit ''parallel'') [lit ''a.wav''])
       \<lparr>is_playing := True, sound_objects := [Sound (lit ''/tmp/moda_0/a.wav'')],
        audio_threads := [Sound (lit ''/tmp/moda_0/a.wav'')],
        running := [Done],
        channels := \<lparr>busy = Some (Sound (lit ''/tmp/moda_0/a.wav'')), endevent = False\<rparr> # replicate 7 idle,
        calls := [MixerStop, MixerSound (lit ''/tmp/moda_0/a.wav'') True,
                  ChannelPlay 0 (Sound (lit ''/tmp/moda_0/a.wav''))],
        tracks_meta := JList []\<rparr>"
  unfolding emptied_def started_par
  by (simp add: thread_step_def channel_play_def loaded_def new_player_def idle_def numeral_eq_Suc)

lemma filter_all_but:
  assumes "k < length ps" and "\<forall>j<length ps. P (ps ! j) \<longleftrightarrow> j \<noteq> k"
  shows "filter P ps = take k ps @ drop (Suc k) ps"
proof -
  have 1: "\<forall>x\<in>set (take k ps). P x"
  proof
    fix x assume "x \<in> set (take k ps)"
    then obtain i where "i < length (take k ps)" "x = take k ps ! i"
      by (auto simp: in_set_conv_nth)
    then show "P x" using assms by simp
  qed
  have 2: "\<forall>x\<in>set (drop (Suc k) ps). P x"
  proof
    fix x assume "x \<in> set (drop (Suc k) ps)"
    then obtain i where "i < length (drop (Suc k) ps)" "x = drop (Suc k) ps ! i"
      by (auto simp: in_set_conv_nth)
    then show "P x" using assms by simp
  qed
  have 3: "\<not> P (ps ! k)" using assms by simp
  have "filter P ps = filter P (take k ps @ ps ! k # drop (Suc k) ps)"
    by (simp only: id_take_nth_drop [OF assms(1), symmetric])
  also have "\<dots> = take k ps @ drop (Suc k) ps"
    using 1 2 3 by simp
  finally show ?thesis .
qed

lemma busy_count:
  assumes "\<forall>c\<in>set cs. busy c = None"
  shows "length (filter (\<lambda>c. busy c \<noteq> None)
           (map (\<lambda>(c, x). c\<lparr>busy := Some x\<rparr>) (zip cs xs) @ drop (length xs) cs)) =
         min (length xs) (length cs)"
proof -
  have 1: "filter (\<lambda>c. busy c \<noteq> None) (map (\<lambda>(c, x). c\<lparr>busy := Some x\<rparr>) (zip cs xs)) =
           map (\<lambda>(c, x). c\<lparr>busy := Some x\<rparr>) (zip cs xs)"
    by (rule filter_True) auto
  have 2: "filter (\<lambda>c. busy c \<noteq> None) (drop (length xs) cs) = []"
    using assms by (auto simp: filter_empty_conv dest: in_set_dropD)
  show ?thesis unfolding filter_append 1 2 by (simp add: min.commute)
qed

lemma busy_nth:
  assumes "i < length xs" and "i < length cs"
  shows "busy ((map (\<lambda>(c, x). c\<lparr>busy := Some x\<rparr>) (zip cs xs) @ rest) ! i) = Some (xs ! i)"
  using assms by (simp add: nth_append)

lemma play_parallel_paths:
  assumes "tracks_meta s = JList ts" and "map (track_path (temp_dir s)) ts = map Inr paths"
  shows "play_parallel E s =
     ((stop s)\<lparr>sound_objects := map Sound (filter (sound_loads E) paths),
        audio_threads := map Sound (filter (sound_loads E) paths),
        running := running s @ map Ready (map Sound (filter (sound_loads E) paths)),
        is_playing := True,
        calls := calls (stop s) @ map (\<lambda>p. MixerSound p (sound_loads E p)) paths\<rparr>,
      None)"
  unfolding play_parallel_def
  using start_parallel_paths [where ts = ts and s = "stop s" and E = E and paths = paths] assms
  by simp

text \<open>
  After \<^verbatim>\<open>play_parallel\<close>, the threads of the session taken one after the other in the
  order they were started.
\<close>

lemma play_parallel_in_turn:
  assumes "tracks_meta s = JList ts" and "map (track_path (temp_dir s)) ts = map Inr paths"
  shows "run_threads (in_turn (length (running s)) (length (filter (sound_loads E) paths)))
           (fst (play_parallel E s)) =
     (stop s)\<lparr>sound_objects := map Sound (filter (sound_loads E) paths),
        audio_threads := map Sound (filter (sound_loads E) paths),
        running := running s @ replicate (length (filter (sound_loads E) paths)) Done,
        is_playing := True,
        channels :=
          map (\<lambda>(c, x). c\<lparr>busy := Some x\<rparr>)
            (zip (channels (stop s)) (map Sound (filter (sound_loads E) paths))) @
          drop (length (filter (sound_loads E) paths)) (channels (stop s)),
        calls := calls (stop s) @ map (\<lambda>p. MixerSound p (sound_loads E p)) paths @
          map (\<lambda>(i, x). ChannelPlay i x)
            (enumerate 0 (take (length (channels (stop s))) (map Sound (filter (sound_loads E) paths))))\<rparr>"
proof -
  let ?xs = "map Sound (filter (sound_loads E) paths)"
  let ?s = "(stop s)\<lparr>sound_objects := ?xs, audio_threads := ?xs,
        running := running s @ map Ready ?xs, is_playing := True,
        calls := calls (stop s) @ map (\<lambda>p. MixerSound p (sound_loads E p)) paths\<rparr>"
  have ch: "channels ?s = [] @ channels (stop s)" by simp
  have ru: "running ?s = running s @ map Ready ?xs" by simp
  have "run_threads (in_turn (length (running s)) (length ?xs)) ?s =
      ?s\<lparr>channels := [] @ map (\<lambda>(c, x). c\<lparr>busy := Some x\<rparr>) (zip (channels (stop s)) ?xs) @
                drop (length ?xs) (channels (stop s)),
          calls := calls ?s @
            map (\<lambda>(i, x). ChannelPlay i x)
              (enumerate (length ([]::channel list)) (take (length (channels (stop s))) ?xs)),
          running := running s @ replicate (length ?xs) Done\<rparr>"
    by (rule in_turn_run [OF ch _ _ ru]) simp_all
  then show ?thesis
    unfolding play_parallel_paths [OF assms] by simp
qed

lemma ten_wf:
  "map (track_path (temp_dir (loaded m ten_names))) (map track_entry (enumerate 0 ten_names)) =
     map Inr ten_paths"
  unfolding loaded_sel entry_paths
  by (simp add: ten_names_def ten_paths_def path_join_def basename_def lit_def sep_def)

lemma three_wf:
  "map (track_path (temp_dir (loaded m three_names))) (map track_entry (enumerate 0 three_names)) =
     map Inr three_paths"
  unfolding loaded_sel entry_paths
  by (simp add: three_names_def three_paths_def path_join_def basename_def lit_def sep_def)

lemma ten_loads:
  "map (sound_loads demo_env) ten_paths =
     [True, True, True, True, True, False, True, True, True, True]"
  by (simp add: ten_paths_def demo_sound_loads lit_def)

lemma three_loads: "map (sound_loads demo_env) three_paths = [True, False, True]"
  by (simp add: three_paths_def demo_sound_loads lit_def)

lemma length_filter_map: "length (filter P xs) = length (filter id (map P xs))"
  by (induction xs) simp_all

lemma ten_parallel:
  "snd (play_parallel demo_env (loaded (lit ''parallel'') ten_names)) = None"
  "length (sound_objects (fst (play_parallel demo_env (loaded (lit ''parallel'') ten_names)))) = 9"
  "busy_channels (run_threads (in_turn 0 9)
     (fst (play_parallel demo_env (loaded (lit ''parallel'') ten_names)))) = 8"
proof -
  let ?s = "loaded (lit ''parallel'') ten_names"
  let ?xs = "map Sound (filter (sound_loads demo_env) ten_paths)"
  have l: "length (filter (sound_loads demo_env) ten_paths) = 9"
    unfolding length_filter_map [of "sound_loads demo_env"] ten_loads by simp
  have idle: "\<forall>c\<in>set (channels (stop ?s)). busy c = None" by simp
  have cnt: "length (filter (\<lambda>c. busy c \<noteq> None)
           (map (\<lambda>(c, x). c\<lparr>busy := Some x\<rparr>) (zip (channels (stop ?s)) ?xs) @
            drop (length ?xs) (channels (stop ?s)))) =
         min (length ?xs) (length (channels (stop ?s)))"
    by (rule busy_count [OF idle])
  note pp = play_parallel_paths [where s = ?s and E = demo_env, OF loaded_sel(1) ten_wf]
  have it: "busy_channels (run_threads (in_turn (length (running ?s)) (length (filter (sound_loads demo_env) ten_paths)))
           (fst (play_parallel demo_env ?s))) = 8"
    unfolding play_parallel_in_turn [where s = ?s and E = demo_env, OF loaded_sel(1) ten_wf]
    using cnt by (simp add: busy_channels_def l)
  show "snd (play_parallel demo_env ?s) = None" by (simp add: pp)
  show "length (sound_objects (fst (play_parallel demo_env ?s))) = 9" by (simp add: pp l)
  show "busy_channels (run_threads (in_turn 0 9) (fst (play_parallel demo_env ?s))) = 8"
    using it unfolding l by simp
qed

text \<open>
  Two threads that both call \<^verbatim>\<open>find_channel\<close> before either calls \<^verbatim>\<open>channel.play\<close> are given
  the same channel.
\<close>

lemma three_race:
  "run_threads [0, 1, 0, 1] (fst (play_parallel demo_env (loaded (lit ''parallel'') three_names))) =
     (stop (loaded (lit ''parallel'') three_names))
       \<lparr>sound_objects := [Sound (lit ''/tmp/moda_0/a.wav''), Sound (lit ''/tmp/moda_0/c.wav'')],
        audio_threads := [Sound (lit ''/tmp/moda_0/a.wav''), Sound (lit ''/tmp/moda_0/c.wav'')],
        running := [Done, Done],
        is_playing := True,
        channels := \<lparr>busy = Some (Sound (lit ''/tmp/moda_0/c.wav'')), endevent = False\<rparr> # replicate 7 idle,
        calls := [MixerStop, MixerSound (lit ''/tmp/moda_0/a.wav'') True,
                  MixerSound (lit ''/tmp/moda_0/b.x'') False, MixerSound (lit ''/tmp/moda_0/c.wav'') True,
                  ChannelPlay 0 (Sound (lit ''/tmp/moda_0/a.wav'')),
                  ChannelPlay 0 (Sound (lit ''/tmp/moda_0/c.wav''))]\<rparr>"
proof -
  have f: "filter (sound_loads demo_env) three_paths = [lit ''/tmp/moda_0/a.wav'', lit ''/tmp/moda_0/c.wav'']"
    by (simp add: three_paths_def demo_sound_loads lit_def)
  have m: "map (\<lambda>p. MixerSound p (sound_loads demo_env p)) three_paths =
      [MixerSound (lit ''/tmp/moda_0/a.wav'') True, MixerSound (lit ''/tmp/moda_0/b.x'') False,
       MixerSound (lit ''/tmp/moda_0/c.wav'') True]"
    using three_loads by (simp add: three_paths_def)
  show ?thesis
    unfolding play_parallel_paths [where s = "loaded (lit ''parallel'') three_names" and E = demo_env,
        OF loaded_sel(1) three_wf] f m
    by (simp add: thread_step_def channel_play_def idle_def numeral_eq_Suc)
qed






section \<open>The container codec\<close>

text \<open>
  Claim C1. Whenever the compiler succeeds on a list of track files, a play mode and an
  optional thumbnail, the decompiler run on the bytes it wrote reads the same number of
  tracks and writes, in the same order, each track under its base name with the bytes of
  the source file, after the thumbnail under its base name with its bytes when there is
  one; the metadata it returns is the metadata the compiler built, with the same play
  mode. The library is assumed to decode what it encoded (UTF-8 and JSON), and the files
  of the output directory to be writable.
\<close>

theorem roundtrip:
  assumes "utf8_laws E" and "json_law E (build_meta tracks mode thumb)"
    and "build_moda_file E tracks mode thumb output_path = Inr file"
    and "extraction_writable E dir tracks thumb"
  shows "extract_moda E file dir =
           (thumb_write E dir thumb @ map (track_write E dir) tracks @
              [meta_write E dir (build_meta tracks mode thumb)],
            Inr (build_meta tracks mode thumb)) \<and>
         py_get (build_meta tracks mode thumb) (lit ''play_mode'') JNull = Inr (JStr mode) \<and>
         py_get (build_meta tracks mode thumb) (lit ''thumbnail'') JNull =
           Inr (if has_thumbnail thumb then JStr (basename (the thumb)) else JNull)"
  using extract_build_moda [OF assms]
  by (simp add: build_meta_def py_get_def lit_def)

theorem roundtrip_witness:
  "utf8_laws demo_env \<and> json_law demo_env demo_meta \<and>
   build_moda_file demo_env demo_tracks (lit ''parallel'') demo_thumb (lit ''x.moda'') =
     Inr demo_file \<and>
   extract_moda demo_env demo_file (lit ''out'') =
     ([(lit ''out/t.png'', Binary [9, 8]),
       (lit ''out/a.wav'', Binary [1, 2, 3]),
       (lit ''out/b.wav'', Binary [4]),
       (lit ''out/meta.json'', Text demo_text)],
      Inr demo_meta) \<and>
   py_get demo_meta (lit ''play_mode'') JNull = Inr (JStr (lit ''parallel''))"
proof -
  have j: "json_law demo_env (build_meta demo_tracks (lit ''parallel'') demo_thumb)"
    by (simp add: demo_meta_eq json_law_demo)
  have w: "thumb_write demo_env (lit ''out'') demo_thumb = [(lit ''out/t.png'', Binary [9, 8])]"
    "map (track_write demo_env (lit ''out'')) demo_tracks =
       [(lit ''out/a.wav'', Binary [1, 2, 3]), (lit ''out/b.wav'', Binary [4])]"
    "meta_write demo_env (lit ''out'') demo_meta = (lit ''out/meta.json'', Text demo_text)"
    by (simp_all add: thumb_write_def track_write_def meta_write_def has_thumbnail_def
        demo_thumb_def demo_tracks_def file_content_def demo_env_sel demo_fs_def dumps_demo
        path_join_def basename_def lit_def sep_def)
  show ?thesis
    using roundtrip [OF ascii_laws j demo_build demo_writable, of "lit ''out''"]
    by (simp add: ascii_laws json_law_demo demo_build demo_meta_eq w)
qed

text \<open>
  Claim C3. A file whose first 4 bytes are not \<^verbatim>\<open>MODA\<close> (or that has fewer than 4 bytes)
  makes the decompiler raise the error of the magic check, wrapped, with no file written;
  the loader of the player raises it likewise and leaves the player as it was. No length
  field, metadata, thumbnail or track is read: nothing else of the file or of the library
  enters the result.
\<close>

theorem bad_magic:
  assumes "take 4 f \<noteq> MODA_MAGIC"
  shows "extract_moda E f dir = ([], Inl (ErrorExtracting NotValidModa)) \<and>
         load_moda E f s = (s, Inl (ErrorLoading NotValidModa))"
  using assms by (simp add: extract_moda_def extract_body_def load_moda_def load_body_def)

theorem bad_magic_witness:
  "take 4 [0x4D, 0x4F, 0x44, 0x42, 0, 0, 0, 2, 0x7B, 0x7D, 0, 0, 0, 0] \<noteq> MODA_MAGIC \<and>
   extract_moda demo_env [0x4D, 0x4F, 0x44, 0x42, 0, 0, 0, 2, 0x7B, 0x7D, 0, 0, 0, 0] (lit ''out'') =
     ([], Inl (ErrorExtracting NotValidModa)) \<and>
   load_moda demo_env [0x4D, 0x4F, 0x44, 0x42, 0, 0, 0, 2, 0x7B, 0x7D, 0, 0, 0, 0] new_player =
     (new_player, Inl (ErrorLoading NotValidModa))"
proof -
  have h: "take 4 [0x4D, 0x4F, 0x44, 0x42, 0, 0, 0, 2, 0x7B, 0x7D, 0, 0, 0, 0] \<noteq> MODA_MAGIC"
    by (simp add: MODA_MAGIC_def)
  show ?thesis
    using h bad_magic [OF h, of demo_env "lit ''out''" new_player] by simp
qed

text \<open>
  Claim C4. In the metadata the compiler builds, the entry at index \<open>i\<close> of \<^verbatim>\<open>tracks\<close> has
  \<^verbatim>\<open>order\<close> \<open>i + 1\<close>; and when the compiler succeeds, the metadata the decompiler returns for
  the file has the same orders (under the laws of the library, the output files writable).
\<close>

theorem order_preserved:
  assumes "i < length tracks"
  shows "track_order (build_meta tracks mode thumb) i = Some (JInt (int i + 1)) \<and>
         (utf8_laws E \<and> json_law E (build_meta tracks mode thumb) \<and>
          build_moda_file E tracks mode thumb output_path = Inr file \<and>
          extraction_writable E dir tracks thumb \<longrightarrow>
          (\<exists>ws meta. extract_moda E file dir = (ws, Inr meta) \<and>
             track_order meta i = Some (JInt (int i + 1))))"
proof -
  have 1: "track_order (build_meta tracks mode thumb) i = Some (JInt (int i + 1))"
    using assms
    by (simp add: track_order_def build_meta_def track_entry_def nth_enumerate_eq lit_def)
  show ?thesis
    using 1 by (auto dest!: extract_build_moda)
qed

theorem order_preserved_witness:
  "(1::nat) < length demo_tracks \<and>
   track_order (build_meta demo_tracks (lit ''parallel'') demo_thumb) 1 = Some (JInt 2) \<and>
   (\<exists>ws meta. extract_moda demo_env demo_file (lit ''out'') = (ws, Inr meta) \<and>
      track_order meta 1 = Some (JInt 2))"
proof -
  have h: "(1::nat) < length demo_tracks" by (simp add: demo_tracks_def)
  have j: "json_law demo_env (build_meta demo_tracks (lit ''parallel'') demo_thumb)"
    by (simp add: demo_meta_eq json_law_demo)
  show ?thesis
    using h order_preserved [OF h, of "lit ''parallel''" demo_thumb demo_env "lit ''x.moda''"
        demo_file "lit ''out''"] ascii_laws j demo_build demo_writable
    by simp
qed

text \<open>
  Claim C5. Without a thumbnail, what the compiler writes after the metadata is the two
  bytes 0 0 followed at once by the track count and the tracks. On such bytes the thumbnail
  step of the decompiler reads the two bytes only, writes nothing and leaves the track count
  as the next bytes; the whole decompiler writes the tracks and \<^verbatim>\<open>meta.json\<close> and no
  thumbnail, and the metadata has \<^verbatim>\<open>null\<close> for the thumbnail.
\<close>

theorem no_thumbnail:
  assumes "\<not> has_thumbnail thumb"
    and "build_moda_file E tracks mode thumb output_path = Inr file"
  shows "(\<exists>meta_json json_len track_count body.
            utf8_encode E (json_dumps E (build_meta tracks mode thumb)) = Inr meta_json \<and>
            pack_I (length meta_json) = Inr json_len \<and>
            pack_H (length tracks) = Inr track_count \<and>
            build_tracks E tracks = Inr body \<and>
            file = MODA_MAGIC @ json_len @ meta_json @ [0, 0] @ track_count @ body \<and>
            extract_thumbnail E dir ([0, 0] @ track_count @ body) =
              ([], Inr (track_count @ body))) \<and>
         (utf8_laws E \<and> json_law E (build_meta tracks mode thumb) \<and>
          extraction_writable E dir tracks thumb \<longrightarrow>
          extract_moda E file dir =
            (map (track_write E dir) tracks @ [meta_write E dir (build_meta tracks mode thumb)],
             Inr (build_meta tracks mode thumb))) \<and>
         py_get (build_meta tracks mode thumb) (lit ''thumbnail'') (JStr []) = Inr JNull"
proof -
  from assms(2) obtain meta_json json_len th track_count body where
    en: "utf8_encode E (json_dumps E (build_meta tracks mode thumb)) = Inr meta_json"
    and jl: "pack_I (length meta_json) = Inr json_len"
    and th: "build_thumbnail E thumb = Inr th"
    and tc: "pack_H (length tracks) = Inr track_count"
    and bd: "build_tracks E tracks = Inr body"
    and fl: "file = MODA_MAGIC @ json_len @ meta_json @ th @ track_count @ body"
    by (rule build_moda_file_Inr)
  have th0: "th = [0, 0]"
    using th assms(1) by (simp add: build_thumbnail_def)
  have 1: "extract_thumbnail E dir ([0, 0] @ track_count @ body) = ([], Inr (track_count @ body))"
    by (simp add: extract_thumbnail_def)
  have 2: "extract_moda E file dir =
            (map (track_write E dir) tracks @ [meta_write E dir (build_meta tracks mode thumb)],
             Inr (build_meta tracks mode thumb))"
    if "utf8_laws E" "json_law E (build_meta tracks mode thumb)"
      "extraction_writable E dir tracks thumb"
    using extract_build_moda [OF that(1,2) assms(2) that(3)] assms(1)
    by (simp add: thumb_write_def)
  have 3: "py_get (build_meta tracks mode thumb) (lit ''thumbnail'') (JStr []) = Inr JNull"
    using assms(1) by (simp add: build_meta_def py_get_def lit_def)
  show ?thesis
    using en jl tc bd fl th0 1 2 3 by blast
qed

theorem no_thumbnail_witness:
  "\<not> has_thumbnail None \<and>
   build_moda_file demo_env [lit ''a.wav''] (lit ''sequential'') None (lit ''x.moda'') =
     Inr plain_file \<and>
   extract_moda demo_env plain_file (lit ''out'') =
     ([(lit ''out/a.wav'', Binary [5, 6, 7]), (lit ''out/meta.json'', Text plain_text)],
      Inr plain_meta) \<and>
   py_get plain_meta (lit ''thumbnail'') (JStr []) = Inr JNull"
proof -
  have h: "\<not> has_thumbnail None" by (simp add: has_thumbnail_def)
  have w: "track_write demo_env (lit ''out'') (lit ''a.wav'') =
             (lit ''out/a.wav'', Binary [5, 6, 7])"
    "meta_write demo_env (lit ''out'') plain_meta = (lit ''out/meta.json'', Text plain_text)"
    by (simp_all add: track_write_def meta_write_def file_content_def demo_env_sel demo_fs_def
        dumps_demo path_join_def basename_def lit_def sep_def)
  show ?thesis
    using h no_thumbnail [OF h plain_build, of "lit ''out''"] ascii_laws json_law_demo(2)
      demo_writable [of "lit ''out''" "[lit ''a.wav'']" None]
    by (simp add: plain_build plain_meta_eq w)
qed



section \<open>The playback engine\<close>

text \<open>
  Claim C8. From any state, \<^verbatim>\<open>stop\<close> calls \<^verbatim>\<open>mixer.stop()\<close> (after which no channel is busy),
  clears the sound handles, puts the cursor back to 0 and leaves \<open>is_playing\<close> false. It
  raises nothing, and a second \<^verbatim>\<open>stop\<close> changes nothing but the record of the calls made to
  the mixer, which gets a second \<^verbatim>\<open>mixer.stop()\<close>.
\<close>

theorem stop_idempotent:
  "calls (stop s) = calls s @ [MixerStop] \<and>
   map busy (channels (stop s)) = replicate (length (channels s)) None \<and>
   sound_objects (stop s) = [] \<and>
   current_track (stop s) = 0 \<and>
   is_playing (stop s) = False \<and>
   stop (stop s) = (stop s)\<lparr>calls := calls s @ [MixerStop, MixerStop]\<rparr>"
  by (simp add: stop_def comp_def map_replicate_const)

text \<open>
  Claim C10. \<^verbatim>\<open>play\<close> takes the parallel path only when \<^verbatim>\<open>play_mode\<close> is the string
  \<^verbatim>\<open>parallel\<close>; for every other value (another string, the empty string, a value that is
  no string) it takes the sequential path. With no track (an empty \<^verbatim>\<open>tracks\<close>) \<^verbatim>\<open>play\<close>
  returns at once, which is also what the sequential path does on an empty list. After
  \<^verbatim>\<open>load_moda\<close>, \<^verbatim>\<open>play_mode\<close> is the value of the key \<^verbatim>\<open>play_mode\<close> of the metadata, and
  \<^verbatim>\<open>sequential\<close> when the key is missing.
\<close>

theorem play_mode_dispatch:
  "(play_mode s \<noteq> JStr (lit ''parallel'') \<longrightarrow>
      play E s =
        (if py_truthy (tracks_meta s) then play_sequential E (stack_room E) s else (s, None))) \<and>
   (py_len (tracks_meta s) = Inr 0 \<longrightarrow> play_sequential E room s = (s, None)) \<and>
   (play_mode s = JStr (lit ''parallel'') \<and> py_truthy (tracks_meta s) \<longrightarrow>
      play E s = play_parallel E s) \<and>
   (load_moda E f s = (s', Inr meta) \<longrightarrow>
      py_get meta (lit ''play_mode'') (JStr (lit ''sequential'')) = Inr (play_mode s'))"
  by (simp add: play_def play_sequential_empty load_moda_play_mode)

theorem play_mode_dispatch_witness:
  "play_mode (loaded (lit ''shuffle'') [lit ''a.wav'']) \<noteq> JStr (lit ''parallel'') \<and>
   play demo_env (loaded (lit ''shuffle'') [lit ''a.wav'']) =
     play_sequential demo_env (stack_room demo_env) (loaded (lit ''shuffle'') [lit ''a.wav'']) \<and>
   py_len (tracks_meta (loaded (lit ''shuffle'') [])) = Inr 0 \<and>
   play_sequential demo_env (stack_room demo_env) (loaded (lit ''shuffle'') []) =
     (loaded (lit ''shuffle'') [], None) \<and>
   play demo_env (loaded (lit ''parallel'') [lit ''a.wav'']) =
     play_parallel demo_env (loaded (lit ''parallel'') [lit ''a.wav'']) \<and>
   snd (load_moda demo_env empty_file new_player) = Inr empty_meta \<and>
   py_get empty_meta (lit ''play_mode'') (JStr (lit ''sequential'')) = Inr (JStr (lit ''sequential'')) \<and>
   play_mode (fst (load_moda demo_env empty_file new_player)) = JStr (lit ''sequential'')"
proof -
  have 1: "play_mode (loaded (lit ''shuffle'') [lit ''a.wav'']) \<noteq> JStr (lit ''parallel'')"
    by (simp add: mode_neq)
  have 2: "play demo_env (loaded (lit ''shuffle'') [lit ''a.wav'']) =
     play_sequential demo_env (stack_room demo_env) (loaded (lit ''shuffle'') [lit ''a.wav''])"
    using 1 play_mode_dispatch [where s = "loaded (lit ''shuffle'') [lit ''a.wav'']" and E = demo_env]
    by (simp add: py_truthy_def enumerate_eq_zip)
  have 3: "py_len (tracks_meta (loaded (lit ''shuffle'') [])) = Inr 0"
    by (simp add: py_len_def)
  have 4: "play_sequential demo_env (stack_room demo_env) (loaded (lit ''shuffle'') []) =
      (loaded (lit ''shuffle'') [], None)"
    using 3 play_mode_dispatch [where s = "loaded (lit ''shuffle'') []" and E = demo_env
        and room = "stack_room demo_env"]
    by blast
  have 5: "play demo_env (loaded (lit ''parallel'') [lit ''a.wav'']) =
     play_parallel demo_env (loaded (lit ''parallel'') [lit ''a.wav''])"
    using play_mode_dispatch [where s = "loaded (lit ''parallel'') [lit ''a.wav'']" and E = demo_env]
    by (simp add: py_truthy_def enumerate_eq_zip)
  have 6: "snd (load_moda demo_env empty_file new_player) = Inr empty_meta"
    by (simp add: load_empty)
  have 7: "py_get empty_meta (lit ''play_mode'') (JStr (lit ''sequential'')) =
     Inr (play_mode (fst (load_moda demo_env empty_file new_player)))"
    using play_mode_dispatch [where s = new_player and E = demo_env and f = empty_file
        and s' = "fst (load_moda demo_env empty_file new_player)" and meta = empty_meta]
    by (simp add: load_empty)
  have 8: "play_mode (fst (load_moda demo_env empty_file new_player)) = JStr (lit ''sequential'')"
    by (simp add: load_empty)
  show ?thesis
    using 1 2 3 4 5 6 7 8 by simp
qed

text \<open>
  Claim C6, as stated, fails. In sequential mode \<^verbatim>\<open>play\<close> calls \<^verbatim>\<open>play_sequential\<close>, which
  does not stop anything: in a session that has moved on to its second track, a new \<^verbatim>\<open>play\<close>
  makes no \<^verbatim>\<open>mixer.stop()\<close>, leaves the busy channel busy, starts the same track on a second
  channel and leaves the cursor at 1. And with no track loaded \<^verbatim>\<open>play\<close> returns at once in
  parallel mode too, whatever is still playing.
\<close>

theorem play_without_stop:
  "current_track advanced = 1 \<and> is_playing advanced \<and>
   busy (channels advanced ! 0) = Some (Sound (lit ''/tmp/moda_0/b.wav'')) \<and>
   snd (play demo_env advanced) = None \<and>
   MixerStop \<notin> set (calls (fst (play demo_env advanced))) \<and>
   busy (channels (fst (play demo_env advanced)) ! 0) = Some (Sound (lit ''/tmp/moda_0/b.wav'')) \<and>
   current_track (fst (play demo_env advanced)) = 1 \<and>
   play_mode emptied = JStr (lit ''parallel'') \<and> is_playing emptied \<and>
   busy (channels emptied ! 0) = Some (Sound (lit ''/tmp/moda_0/a.wav'')) \<and>
   play demo_env emptied = (emptied, None)"
  by (simp add: advanced_play) (simp add: advanced_eq emptied_eq play_def py_truthy_def)

text \<open>
  Claim C6, amended. In parallel mode with at least one track, \<^verbatim>\<open>play\<close> is \<^verbatim>\<open>stop\<close> followed by
  the start of the new session from the stopped state: the first call to the mixer is
  \<^verbatim>\<open>mixer.stop()\<close>, after which no channel is busy, no sound handle is held and the cursor is 0,
  and the cursor is 0 when \<^verbatim>\<open>play\<close> returns. With no track \<^verbatim>\<open>play\<close> changes nothing.
\<close>

theorem parallel_play_stops_first:
  "(play_mode s = JStr (lit ''parallel'') \<and> py_truthy (tracks_meta s) \<longrightarrow>
      play E s = start_parallel E (stop s) \<and>
      calls (stop s) = calls s @ [MixerStop] \<and>
      map busy (channels (stop s)) = replicate (length (channels s)) None \<and>
      sound_objects (stop s) = [] \<and>
      current_track (stop s) = 0 \<and>
      (\<exists>rest. calls (fst (play E s)) = calls s @ MixerStop # rest) \<and>
      current_track (fst (play E s)) = 0) \<and>
   (\<not> py_truthy (tracks_meta s) \<longrightarrow> play E s = (s, None))"
proof -
  obtain more where m: "calls (fst (start_parallel E (stop s))) = calls (stop s) @ more"
    using start_parallel_sel [of E "stop s"] by blast
  have c: "current_track (fst (start_parallel E (stop s))) = 0"
    using start_parallel_sel [of E "stop s"] by simp
  show ?thesis
    using m c by (simp add: play_def play_parallel_def comp_def map_replicate_const)
qed

theorem parallel_play_stops_first_witness:
  "play_mode (started (lit ''parallel'') [lit ''a.wav'']) = JStr (lit ''parallel'') \<and>
   py_truthy (tracks_meta (started (lit ''parallel'') [lit ''a.wav''])) \<and>
   play demo_env (started (lit ''parallel'') [lit ''a.wav'']) =
     start_parallel demo_env (stop (started (lit ''parallel'') [lit ''a.wav''])) \<and>
   map busy (channels (stop (started (lit ''parallel'') [lit ''a.wav'']))) = replicate 8 None \<and>
   current_track (fst (play demo_env (started (lit ''parallel'') [lit ''a.wav'']))) = 0 \<and>
   \<not> py_truthy (tracks_meta emptied) \<and> play demo_env emptied = (emptied, None)"
proof -
  have 1: "play_mode (started (lit ''parallel'') [lit ''a.wav'']) = JStr (lit ''parallel'')"
    and 2: "py_truthy (tracks_meta (started (lit ''parallel'') [lit ''a.wav'']))"
    and 3: "length (channels (started (lit ''parallel'') [lit ''a.wav''])) = 8"
    by (simp_all add: started_par py_truthy_def enumerate_eq_zip)
  have 4: "\<not> py_truthy (tracks_meta emptied)"
    by (simp add: emptied_eq py_truthy_def)
  have 5: "play demo_env (started (lit ''parallel'') [lit ''a.wav'']) =
       start_parallel demo_env (stop (started (lit ''parallel'') [lit ''a.wav'']))"
    and 6: "map busy (channels (stop (started (lit ''parallel'') [lit ''a.wav'']))) =
       replicate (length (channels (started (lit ''parallel'') [lit ''a.wav'']))) None"
    and 7: "current_track (fst (play demo_env (started (lit ''parallel'') [lit ''a.wav'']))) = 0"
    using 1 2 parallel_play_stops_first [of "started (lit ''parallel'') [lit ''a.wav'']" demo_env]
    by blast+
  have 8: "play demo_env emptied = (emptied, None)"
    using 4 parallel_play_stops_first [of emptied demo_env] by blast
  show ?thesis
    using 1 2 4 5 6 7 8 unfolding 3 by blast
qed

text \<open>
  Claim C9, as stated, fails. \<^verbatim>\<open>play_parallel\<close> starts a thread for each sound and returns;
  the channels are started by the threads. When the tracks that load are more than the
  channels of the mixer, the sounds cannot all be started: of ten tracks of which the sixth
  does not load, nine sounds are loaded and, the threads running one after the other,
  eight channels are started, all the mixer has. And the number of channels started depends
  on the order in which the threads run: of three tracks of which the second does not load,
  when both threads call \<^verbatim>\<open>find_channel\<close> before either calls \<^verbatim>\<open>channel.play\<close>, both sounds
  are started on channel 0 and one channel is in use, not two.
\<close>

theorem parallel_more_tracks_than_channels:
  "length ten_names = 10 \<and>
   map (sound_loads demo_env) ten_paths =
     [True, True, True, True, True, False, True, True, True, True] \<and>
   length (channels (loaded (lit ''parallel'') ten_names)) = 8 \<and>
   snd (play_parallel demo_env (loaded (lit ''parallel'') ten_names)) = None \<and>
   length (sound_objects (fst (play_parallel demo_env (loaded (lit ''parallel'') ten_names)))) = 9 \<and>
   busy_channels (run_threads (in_turn 0 9)
     (fst (play_parallel demo_env (loaded (lit ''parallel'') ten_names)))) = 8 \<and>
   length three_names = 3 \<and>
   map (sound_loads demo_env) three_paths = [True, False, True] \<and>
   busy_channels (run_threads [0, 1, 0, 1]
     (fst (play_parallel demo_env (loaded (lit ''parallel'') three_names)))) = 1 \<and>
   calls (run_threads [0, 1, 0, 1]
     (fst (play_parallel demo_env (loaded (lit ''parallel'') three_names)))) =
     [MixerStop, MixerSound (lit ''/tmp/moda_0/a.wav'') True,
      MixerSound (lit ''/tmp/moda_0/b.x'') False, MixerSound (lit ''/tmp/moda_0/c.wav'') True,
      ChannelPlay 0 (Sound (lit ''/tmp/moda_0/a.wav'')),
      ChannelPlay 0 (Sound (lit ''/tmp/moda_0/c.wav''))]"
proof -
  have 1: "busy_channels (run_threads [0, 1, 0, 1]
     (fst (play_parallel demo_env (loaded (lit ''parallel'') three_names)))) = 1"
    unfolding three_race by (simp add: busy_channels_def idle_def)
  have 2: "calls (run_threads [0, 1, 0, 1]
     (fst (play_parallel demo_env (loaded (lit ''parallel'') three_names)))) =
     [MixerStop, MixerSound (lit ''/tmp/moda_0/a.wav'') True,
      MixerSound (lit ''/tmp/moda_0/b.x'') False, MixerSound (lit ''/tmp/moda_0/c.wav'') True,
      ChannelPlay 0 (Sound (lit ''/tmp/moda_0/a.wav'')),
      ChannelPlay 0 (Sound (lit ''/tmp/moda_0/c.wav''))]"
    unfolding three_race by simp
  have 3: "length ten_names = 10" "length three_names = 3"
    "length (channels (loaded (lit ''parallel'') ten_names)) = 8"
    by (simp_all add: ten_names_def three_names_def)
  show ?thesis
    using 1 2 3 ten_parallel ten_loads three_loads by blast
qed

text \<open>
  Claim C9, amended. In parallel mode, when exactly one of the \<open>N\<close> tracks does not load and
  no thread of an earlier session is still on its way to \<^verbatim>\<open>channel.play\<close>, \<^verbatim>\<open>play_parallel\<close>
  stops the mixer, tries to load every track in order, keeps the \<open>N - 1\<close> sounds that
  loaded, starts one thread for each and sets \<open>is_playing\<close>; it raises nothing and starts no
  channel itself. The channels are started by the threads. A thread starts its sound on the
  channel \<^verbatim>\<open>find_channel\<close> gave it and does nothing when there was none, so in whatever order
  the threads take their steps, and however far they have got, the channels in use are at
  most \<open>N - 1\<close> and at most those of the mixer. When the threads run one after the other in
  the order they were started, and no sound has ended yet, the channels in use are the
  smaller of \<open>N - 1\<close> and the number of channels of the mixer, and with at least \<open>N - 1\<close>
  channels sound \<open>i\<close> plays on channel \<open>i\<close>.
\<close>

theorem parallel_fan_out:
  assumes "tracks_meta s = JList ts" and "map (track_path (temp_dir s)) ts = map Inr paths"
    and "k < length paths" and "\<forall>j<length paths. sound_loads E (paths ! j) \<longleftrightarrow> j \<noteq> k"
    and "\<forall>t\<in>set (running s). t = Done"
  shows "\<exists>s'. play_parallel E s = (s', None) \<and>
      sound_objects s' = map Sound (take k paths @ drop (Suc k) paths) \<and>
      length (sound_objects s') = length paths - 1 \<and>
      audio_threads s' = sound_objects s' \<and>
      running s' = running s @ map Ready (sound_objects s') \<and>
      is_playing s' \<and>
      calls s' = calls s @ [MixerStop] @ map (\<lambda>p. MixerSound p (sound_loads E p)) paths \<and>
      busy_channels s' = 0 \<and>
      (\<forall>sched. busy_channels (run_threads sched s') \<le> min (length paths - 1) (length (channels s))) \<and>
      (let s2 = run_threads (in_turn (length (running s)) (length paths - 1)) s'
       in calls s2 = calls s' @
            map (\<lambda>(i, x). ChannelPlay i x)
              (enumerate 0 (take (length (channels s)) (sound_objects s'))) \<and>
          busy_channels s2 = min (length paths - 1) (length (channels s)) \<and>
          (length paths - 1 \<le> length (channels s) \<longrightarrow>
             (\<forall>i<length paths - 1. busy (channels s2 ! i) = Some (sound_objects s' ! i))))"
proof -
  let ?xs = "map Sound (filter (sound_loads E) paths)"
  let ?s' = "(stop s)\<lparr>sound_objects := ?xs, audio_threads := ?xs,
        running := running s @ map Ready ?xs, is_playing := True,
        calls := calls (stop s) @ map (\<lambda>p. MixerSound p (sound_loads E p)) paths\<rparr>"
  have pp: "play_parallel E s = (?s', None)"
    by (rule play_parallel_paths [OF assms(1,2)])
  have f: "filter (sound_loads E) paths = take k paths @ drop (Suc k) paths"
    by (rule filter_all_but [OF assms(3,4)])
  have l: "length (filter (sound_loads E) paths) = length paths - 1"
    using assms(3) by (simp add: f)
  have idle: "\<forall>c\<in>set (channels (stop s)). busy c = None" by simp
  have b0: "busy_channels ?s' = 0"
    by (simp add: busy_channels_def)
  have dn: "filter (\<lambda>t. t \<noteq> Done) (running s) = []"
    using assms(5) by (simp add: filter_empty_conv)
  have pend: "length (filter (\<lambda>t. t \<noteq> Done) (running ?s')) = length paths - 1"
    using dn l by simp
  have bound: "busy_channels (run_threads sched ?s') \<le> min (length paths - 1) (length (channels s))"
    for sched
  proof -
    have "busy_channels (run_threads sched ?s') \<le> length paths - 1"
      using run_threads_bound [of sched ?s'] unfolding b0 pend by simp
    moreover have "busy_channels (run_threads sched ?s') \<le> length (channels s)"
      using busy_channels_le [of "run_threads sched ?s'"] by simp
    ultimately show ?thesis by simp
  qed
  let ?s2 = "run_threads (in_turn (length (running s)) (length paths - 1)) ?s'"
  have it: "?s2 =
     (stop s)\<lparr>sound_objects := ?xs, audio_threads := ?xs,
        running := running s @ replicate (length (filter (sound_loads E) paths)) Done,
        is_playing := True,
        channels :=
          map (\<lambda>(c, x). c\<lparr>busy := Some x\<rparr>) (zip (channels (stop s)) ?xs) @
          drop (length (filter (sound_loads E) paths)) (channels (stop s)),
        calls := calls (stop s) @ map (\<lambda>p. MixerSound p (sound_loads E p)) paths @
          map (\<lambda>(i, x). ChannelPlay i x)
            (enumerate 0 (take (length (channels (stop s))) ?xs))\<rparr>"
    using play_parallel_in_turn [OF assms(1,2), of E] unfolding pp l by simp
  have cnt: "length (filter (\<lambda>c. busy c \<noteq> None)
           (map (\<lambda>(c, x). c\<lparr>busy := Some x\<rparr>) (zip (channels (stop s)) ?xs) @
            drop (length ?xs) (channels (stop s)))) =
         min (length ?xs) (length (channels (stop s)))"
    by (rule busy_count [OF idle])
  have nth: "busy ((map (\<lambda>(c, x). c\<lparr>busy := Some x\<rparr>) (zip (channels (stop s)) ?xs) @
            drop (length ?xs) (channels (stop s))) ! i) = Some (?xs ! i)"
    if "i < length paths - 1" "length paths - 1 \<le> length (channels s)" for i
    by (rule busy_nth) (use that l in simp_all)
  have c2: "calls ?s2 = calls ?s' @
            map (\<lambda>(i, x). ChannelPlay i x)
              (enumerate 0 (take (length (channels s)) (sound_objects ?s')))"
    unfolding it by simp
  have b2: "busy_channels ?s2 = min (length paths - 1) (length (channels s))"
    unfolding it using cnt l by (simp add: busy_channels_def)
  have n2: "busy (channels ?s2 ! i) = Some (sound_objects ?s' ! i)"
    if "i < length paths - 1" "length paths - 1 \<le> length (channels s)" for i
    unfolding it using nth [OF that] by simp
  have so: "sound_objects ?s' = map Sound (take k paths @ drop (Suc k) paths)"
    by (simp add: f)
  have ls: "length (sound_objects ?s') = length paths - 1"
    by (simp add: l)
  have rest: "audio_threads ?s' = sound_objects ?s'"
    "running ?s' = running s @ map Ready (sound_objects ?s')"
    "is_playing ?s'"
    "calls ?s' = calls s @ [MixerStop] @ map (\<lambda>p. MixerSound p (sound_loads E p)) paths"
    by simp_all
  show ?thesis
    unfolding Let_def
    using pp so ls rest b0 bound c2 b2 n2 by blast
qed

theorem parallel_fan_out_witness:
  "tracks_meta (loaded (lit ''parallel'') three_names) =
     JList (map track_entry (enumerate 0 three_names)) \<and>
   map (sound_loads demo_env) three_paths = [True, False, True] \<and>
   running (loaded (lit ''parallel'') three_names) = [] \<and>
   snd (play_parallel demo_env (loaded (lit ''parallel'') three_names)) = None \<and>
   sound_objects (fst (play_parallel demo_env (loaded (lit ''parallel'') three_names))) =
     [Sound (lit ''/tmp/moda_0/a.wav''), Sound (lit ''/tmp/moda_0/c.wav'')] \<and>
   is_playing (fst (play_parallel demo_env (loaded (lit ''parallel'') three_names))) \<and>
   busy_channels (fst (play_parallel demo_env (loaded (lit ''parallel'') three_names))) = 0 \<and>
   busy_channels (run_threads [1, 0, 1]
     (fst (play_parallel demo_env (loaded (lit ''parallel'') three_names)))) \<le> 2 \<and>
   busy_channels (run_threads (in_turn 0 2)
     (fst (play_parallel demo_env (loaded (lit ''parallel'') three_names)))) = 2 \<and>
   busy (channels (run_threads (in_turn 0 2)
     (fst (play_parallel demo_env (loaded (lit ''parallel'') three_names)))) ! 1) =
     Some (Sound (lit ''/tmp/moda_0/c.wav''))"
proof -
  let ?s = "loaded (lit ''parallel'') three_names"
  have k: "(1::nat) < length three_paths" by (simp add: three_paths_def)
  have h: "\<forall>j<length three_paths. sound_loads demo_env (three_paths ! j) \<longleftrightarrow> j \<noteq> 1"
    by (auto simp: three_paths_def demo_sound_loads lit_def less_Suc_eq nth_Cons')
  have d: "\<forall>t\<in>set (running ?s). t = Done" by simp
  from parallel_fan_out [where s = ?s and E = demo_env, OF loaded_sel(1) three_wf k h d]
  obtain s' where p: "play_parallel demo_env ?s = (s', None)"
    and so: "sound_objects s' = map Sound (take 1 three_paths @ drop (Suc 1) three_paths)"
    and ip: "is_playing s'"
    and b0: "busy_channels s' = 0"
    and bd: "\<forall>sched. busy_channels (run_threads sched s') \<le>
         min (length three_paths - 1) (length (channels ?s))"
    and it: "let s2 = run_threads (in_turn (length (running ?s)) (length three_paths - 1)) s'
       in calls s2 = calls s' @
            map (\<lambda>(i, x). ChannelPlay i x)
              (enumerate 0 (take (length (channels ?s)) (sound_objects s'))) \<and>
          busy_channels s2 = min (length three_paths - 1) (length (channels ?s)) \<and>
          (length three_paths - 1 \<le> length (channels ?s) \<longrightarrow>
             (\<forall>i<length three_paths - 1. busy (channels s2 ! i) = Some (sound_objects s' ! i)))"
    by blast
  have n: "length three_paths - 1 = 2" "length (channels ?s) = 8" "length (running ?s) = 0"
    by (simp_all add: three_paths_def)
  have so': "sound_objects s' = [Sound (lit ''/tmp/moda_0/a.wav''), Sound (lit ''/tmp/moda_0/c.wav'')]"
    using so by (simp add: three_paths_def)
  have b1: "busy_channels (run_threads [1, 0, 1] s') \<le> 2"
    using bd [rule_format, of "[1, 0, 1]"] unfolding n by simp
  have b2: "busy_channels (run_threads (in_turn 0 2) s') = 2"
    using it unfolding Let_def n by simp
  have b3: "busy (channels (run_threads (in_turn 0 2) s') ! 1) = Some (sound_objects s' ! 1)"
    using it unfolding Let_def n by simp
  have fs: "fst (play_parallel demo_env ?s) = s'" "snd (play_parallel demo_env ?s) = None"
    using p by simp_all
  have r: "running ?s = []" by simp
  show ?thesis
    unfolding fs using so' ip b0 b1 b2 b3 r three_loads by simp
qed



end
